theory Spec2Isabelle
  imports Complex_Main
begin

section \<open>Graph attention layer (gcn_node_classification/gat.py)\<close>

text \<open>
  A shallow embedding of \<^verbatim>\<open>GATLayer\<close>. A tensor is its shape together with its
  entries in row-major order, which is how the tensor library stores a contiguous tensor;
  \<^verbatim>\<open>view\<close> and \<^verbatim>\<open>reshape\<close> then only change the shape. Entries are
  real numbers: rounding, overflow and underflow of floating-point arithmetic are not part
  of the model. Every failure of the source (the constructor's assertion, a division by
  zero, a failure raised by the tensor library) is a value \<open>Inl e\<close>.
\<close>

subsection \<open>Tensors\<close>

record tensor =
  shape :: "nat list"
  elems :: "real list"

definition wf_tensor :: "tensor \<Rightarrow> bool" where
  "wf_tensor t = (length (elems t) = prod_list (shape t))"

datatype error = AssertionError | ZeroDivisionError | TensorError

subsection \<open>The layer and its constructor\<close>

text \<open>
  The attributes \<^verbatim>\<open>__init__\<close> sets on \<^verbatim>\<open>self\<close>: \<^verbatim>\<open>num_heads\<close>,
  \<^verbatim>\<open>concat_heads\<close>, the weight of \<^verbatim>\<open>projection\<close> (shape
  \<open>[c_out * num_heads, c_in]\<close>, as \<^verbatim>\<open>nn.Linear\<close> stores it), \<^verbatim>\<open>a\<close> and the
  slope of \<^verbatim>\<open>leakyrelu\<close>. The per-head width is not stored: \<^verbatim>\<open>forward\<close>
  recovers it from the shape of the projected features.
\<close>

record layer =
  num_heads :: nat
  concat_heads :: bool
  projection :: tensor
  a :: tensor
  alpha :: real

text \<open>
  \<^verbatim>\<open>__init__\<close>, lines 7 to 21. The arguments are Python integers. The values drawn by
  \<^verbatim>\<open>xavier_normal_\<close> are the two functions \<open>gw\<close> and \<open>ga\<close> (entry number to
  value). \<^verbatim>\<open>%\<close> raises on a zero divisor; \<^verbatim>\<open>nn.Linear\<close> and
  \<^verbatim>\<open>torch.Tensor\<close> refuse a negative dimension; \<^verbatim>\<open>xavier_normal_\<close> divides
  by the sum of the two dimensions of the tensor it fills.
\<close>

definition init ::
  "int \<Rightarrow> int \<Rightarrow> int \<Rightarrow> bool \<Rightarrow> real \<Rightarrow> (nat \<Rightarrow> real) \<Rightarrow> (nat \<Rightarrow> real) \<Rightarrow> error + layer" where
  "init c_in c_out n_heads concat_hs slope gw ga =
     (if concat_hs \<and> n_heads = 0 then Inl ZeroDivisionError
      else if concat_hs \<and> c_out mod n_heads \<noteq> 0 then Inl AssertionError
      else
        let c = (if concat_hs then c_out div n_heads else c_out) in
        if c_in < 0 \<or> c * n_heads < 0 then Inl TensorError
        else if n_heads < 0 \<or> 2 * c < 0 then Inl TensorError
        else if c_in + c * n_heads = 0 then Inl ZeroDivisionError
        else if 2 * c + n_heads = 0 then Inl ZeroDivisionError
        else Inr \<lparr>num_heads = nat n_heads, concat_heads = concat_hs,
                  projection = \<lparr>shape = [nat (c * n_heads), nat c_in],
                                elems = map gw [0..<nat (c * n_heads) * nat c_in]\<rparr>,
                  a = \<lparr>shape = [nat n_heads, nat (2 * c)],
                       elems = map ga [0..<nat n_heads * nat (2 * c)]\<rparr>,
                  alpha = slope\<rparr>)"

text \<open>The per-head output width of a layer: half the second dimension of \<^verbatim>\<open>a\<close>.\<close>

definition head_width :: "layer \<Rightarrow> nat" where
  "head_width L = (shape (a L) ! 1) div 2"

text \<open>A layer as the constructor leaves it, with any values in the two parameters.\<close>

definition layer_ok :: "layer \<Rightarrow> nat \<Rightarrow> nat \<Rightarrow> bool" where
  "layer_ok L cin c =
     (shape (projection L) = [c * num_heads L, cin] \<and> wf_tensor (projection L) \<and>
      shape (a L) = [num_heads L, 2 * c] \<and> wf_tensor (a L))"

subsection \<open>Tensor operations used by forward\<close>

definition bindE :: "error + 'a \<Rightarrow> ('a \<Rightarrow> error + 'b) \<Rightarrow> error + 'b" where
  "bindE r f = (case r of Inl e \<Rightarrow> Inl e | Inr v \<Rightarrow> f v)"

text \<open>
  \<^verbatim>\<open>self.projection(node_feats)\<close>: a linear map without bias on the last dimension,
  with weight of shape \<open>[n_out, n_in]\<close>. Entry \<open>p\<close> of the result belongs to row
  \<open>p div n_out\<close> of the input and to output feature \<open>p mod n_out\<close>.
\<close>

definition linear :: "tensor \<Rightarrow> tensor \<Rightarrow> error + tensor" where
  "linear w x =
     (case shape w of
        [n_out, n_in] \<Rightarrow>
          if shape x = [] \<or> last (shape x) \<noteq> n_in then Inl TensorError
          else Inr \<lparr>shape = butlast (shape x) @ [n_out],
                    elems = map (\<lambda>p. \<Sum>k\<leftarrow>[0..<n_in].
                                  elems x ! ((p div n_out) * n_in + k) * elems w ! ((p mod n_out) * n_in + k))
                              [0..<prod_list (butlast (shape x)) * n_out]\<rparr>
      | _ \<Rightarrow> Inl TensorError)"

text \<open>
  \<^verbatim>\<open>.view(batch_size, num_nodes, self.num_heads, -1)\<close>: the last dimension is inferred;
  the library refuses when the given dimensions multiply to zero or do not divide the
  number of entries.
\<close>

definition view4 :: "tensor \<Rightarrow> nat \<Rightarrow> nat \<Rightarrow> nat \<Rightarrow> error + tensor" where
  "view4 t B N H =
     (if B * N * H = 0 \<or> \<not> (B * N * H) dvd prod_list (shape t) then Inl TensorError
      else Inr \<lparr>shape = [B, N, H, prod_list (shape t) div (B * N * H)], elems = elems t\<rparr>)"

text \<open>
  \<^verbatim>\<open>adj_matrix.nonzero(as_tuple=False)\<close> on a tensor of shape \<open>[B, N1, N2]\<close>: the index
  triples of the entries different from zero, in row-major order.
\<close>

definition nonzero_pos :: "tensor \<Rightarrow> nat list" where
  "nonzero_pos t = filter (\<lambda>p. elems t ! p \<noteq> 0) [0..<prod_list (shape t)]"

definition unravel3 :: "nat \<Rightarrow> nat \<Rightarrow> nat \<Rightarrow> nat \<times> nat \<times> nat" where
  "unravel3 N1 N2 p = (p div (N1 * N2), (p div N2) mod N1, p mod N2)"

definition nonzero :: "tensor \<Rightarrow> (nat \<times> nat \<times> nat) list" where
  "nonzero t = map (unravel3 (shape t ! 1) (shape t ! 2)) (nonzero_pos t)"

text \<open>\<^verbatim>\<open>nn.LeakyReLU(alpha)\<close>: \<open>max(0, x) + alpha * min(0, x)\<close>.\<close>

definition leakyrelu :: "real \<Rightarrow> real \<Rightarrow> real" where
  "leakyrelu s x = max 0 x + s * min 0 x"

text \<open>
  Lines 37 to 43. \<open>nf\<close> is the projected tensor of shape \<open>[B, N, H, c]\<close>;
  \<^verbatim>\<open>node_feats_flat\<close> is the same storage seen as \<open>[B * N, H, c]\<close>. Entry \<open>k\<close> of the
  concatenation for one edge and head \<open>h\<close>: the first \<open>c\<close> entries come from the row selected
  by \<^verbatim>\<open>edge_indices_row\<close>, the next \<open>c\<close> from the row selected by
  \<^verbatim>\<open>edge_indices_col\<close>.
\<close>

definition a_input :: "tensor \<Rightarrow> nat \<Rightarrow> nat \<Rightarrow> nat \<Rightarrow> nat \<Rightarrow> real" where
  "a_input nf r1 r2 h k =
     (let H = shape nf ! 2; c = shape nf ! 3 in
      if k < c then elems nf ! ((r1 * H + h) * c + k)
      else elems nf ! ((r2 * H + h) * c + (k - c)))"

text \<open>
  Lines 36 to 46: one row of \<open>H\<close> logits for each edge, in the order of
  \<^verbatim>\<open>nonzero\<close>. \<^verbatim>\<open>index_select\<close> refuses an index beyond the \<open>B * N\<close> rows, and the
  \<^verbatim>\<open>einsum\<close> needs \<^verbatim>\<open>a\<close> to have \<open>2 * c\<close> columns. The parameter
  \<^verbatim>\<open>a\<close> is taken with the two dimensions the constructor gave it: an \<^verbatim>\<open>a\<close>
  reshaped afterwards to an axis of size 1, which \<^verbatim>\<open>einsum\<close> would broadcast, is not
  modelled.
\<close>

definition edge_logits :: "layer \<Rightarrow> tensor \<Rightarrow> nat \<times> nat \<times> nat \<Rightarrow> real list" where
  "edge_logits L nf e =
     (case e of (b, i, j) \<Rightarrow>
        let N = shape nf ! 1; c = shape nf ! 3 in
        map (\<lambda>h. leakyrelu (alpha L)
                   (\<Sum>k\<leftarrow>[0..<2 * c]. a_input nf (b * N + i) (b * N + j) h k * elems (a L) ! (h * (2 * c) + k)))
            [0..<num_heads L])"

definition attn_logits :: "layer \<Rightarrow> tensor \<Rightarrow> tensor \<Rightarrow> error + tensor" where
  "attn_logits L nf adj =
     (let B = shape nf ! 0; N = shape nf ! 1; c = shape nf ! 3; edges = nonzero adj in
      if \<exists>e \<in> set edges. (case e of (b, i, j) \<Rightarrow> B * N \<le> b * N + i \<or> B * N \<le> b * N + j)
        then Inl TensorError
      else if shape (a L) \<noteq> [num_heads L, 2 * c] then Inl TensorError
      else Inr \<lparr>shape = [length edges, num_heads L],
                elems = concat (map (edge_logits L nf) edges)\<rparr>)"

text \<open>
  Lines 49 and 50. The new tensor is filled with \<open>-9e15\<close>; the mask is the adjacency
  compared with 1, each entry repeated for the \<open>H\<close> heads; the masked positions, in row-major
  order, receive the flattened logits. The library accepts the assignment when there are as many
  values as masked positions, or a single value (which then fills every masked position), and
  refuses it otherwise.
\<close>

definition sentinel :: real where
  "sentinel = - 9000000000000000"

fun masked_put :: "bool list \<Rightarrow> real list \<Rightarrow> real list \<Rightarrow> real list" where
  "masked_put (m # ms) (x # xs) vs =
     (if m then (case vs of [] \<Rightarrow> x # xs | v # vs' \<Rightarrow> v # masked_put ms xs vs')
      else x # masked_put ms xs vs)"
| "masked_put _ xs _ = xs"

definition index_put_mask :: "bool list \<Rightarrow> real list \<Rightarrow> real list \<Rightarrow> error + real list" where
  "index_put_mask msk xs vs =
     (if length vs = length (filter (\<lambda>m. m) msk) then Inr (masked_put msk xs vs)
      else if length vs = 1 then Inr (map (\<lambda>(m, x). if m then hd vs else x) (zip msk xs))
      else Inl TensorError)"

definition adj_mask :: "tensor \<Rightarrow> nat \<Rightarrow> bool list" where
  "adj_mask adj H = concat (map (\<lambda>p. replicate H (elems adj ! p = 1)) [0..<prod_list (shape adj)])"

definition attn_matrix :: "layer \<Rightarrow> tensor \<Rightarrow> tensor \<Rightarrow> error + tensor" where
  "attn_matrix L adj lg =
     bindE (index_put_mask (adj_mask adj (num_heads L))
              (replicate (prod_list (shape adj @ [num_heads L])) sentinel) (elems lg))
       (\<lambda>vs. Inr \<lparr>shape = shape adj @ [num_heads L], elems = vs\<rparr>)"

text \<open>
  \<^verbatim>\<open>F.softmax(attn_matrix, dim=2)\<close> on a tensor of shape \<open>[B, N1, N2, H]\<close>: entry
  \<open>p\<close> has head \<open>p mod H\<close> and batch and destination \<open>p div (H * N2)\<close>; it is divided
  by the sum over the third index.
\<close>

definition softmax_dim2 :: "tensor \<Rightarrow> tensor" where
  "softmax_dim2 t =
     (let N2 = shape t ! 2; H = shape t ! 3 in
      \<lparr>shape = shape t,
       elems = map (\<lambda>p. exp (elems t ! p) /
                        (\<Sum>j\<leftarrow>[0..<N2]. exp (elems t ! (((p div (H * N2)) * N2 + j) * H + p mod H))))
                   [0..<prod_list (shape t)]\<rparr>)"

text \<open>\<^verbatim>\<open>attn_probs.permute(0, 3, 1, 2)\<close>, as printed: shape \<open>[B, H, N1, N2]\<close>.\<close>

definition permute_0312 :: "tensor \<Rightarrow> tensor" where
  "permute_0312 t =
     (let B = shape t ! 0; N1 = shape t ! 1; N2 = shape t ! 2; H = shape t ! 3 in
      \<lparr>shape = [B, H, N1, N2],
       elems = map (\<lambda>q. elems t ! ((((q div (N2 * N1 * H)) * N1 + (q div N2) mod N1) * N2 + q mod N2) * H
                                     + (q div (N2 * N1)) mod H))
                   [0..<B * H * N1 * N2]\<rparr>)"

text \<open>
  \<^verbatim>\<open>torch.einsum('bijh,bjhc->bihc', attn_probs, node_feats)\<close>. The sizes of a
  subscript must agree or be 1; an operand of size 1 in a subscript is read at index 0 there.
\<close>

definition bsize :: "nat \<Rightarrow> nat \<Rightarrow> nat" where
  "bsize m n = (if m = 1 then n else m)"

definition bidx :: "nat \<Rightarrow> nat \<Rightarrow> nat" where
  "bidx n x = (if n = 1 then 0 else x)"

definition bcompat :: "nat \<Rightarrow> nat \<Rightarrow> bool" where
  "bcompat m n = (m = n \<or> m = 1 \<or> n = 1)"

definition aggregate :: "tensor \<Rightarrow> tensor \<Rightarrow> error + tensor" where
  "aggregate pr nf =
     (let B2 = shape pr ! 0; N1 = shape pr ! 1; N2 = shape pr ! 2; H = shape pr ! 3;
          B = shape nf ! 0; N = shape nf ! 1; c = shape nf ! 3 in
      if \<not> bcompat B2 B \<or> \<not> bcompat N2 N \<or> H \<noteq> shape nf ! 2 then Inl TensorError
      else Inr \<lparr>shape = [bsize B2 B, N1, H, c],
                elems = map (\<lambda>p.
                    let k = p mod c; h = (p div c) mod H; i = (p div (c * H)) mod N1;
                        b = p div (c * H * N1) in
                    \<Sum>j\<leftarrow>[0..<bsize N2 N].
                      elems pr ! ((((bidx B2 b) * N1 + i) * N2 + bidx N2 j) * H + h) *
                      elems nf ! ((((bidx B b) * N + bidx N j) * H + h) * c + k))
                  [0..<bsize B2 B * N1 * H * c]\<rparr>)"

text \<open>Line 60, \<^verbatim>\<open>reshape(batch_size, num_nodes, -1)\<close>, and line 62, \<^verbatim>\<open>mean(dim=2)\<close>.\<close>

definition reshape3 :: "tensor \<Rightarrow> nat \<Rightarrow> nat \<Rightarrow> error + tensor" where
  "reshape3 t B N =
     (if B * N = 0 \<or> \<not> (B * N) dvd prod_list (shape t) then Inl TensorError
      else Inr \<lparr>shape = [B, N, prod_list (shape t) div (B * N)], elems = elems t\<rparr>)"

definition mean_dim2 :: "tensor \<Rightarrow> tensor" where
  "mean_dim2 t =
     (let B = shape t ! 0; N1 = shape t ! 1; H = shape t ! 2; c = shape t ! 3 in
      \<lparr>shape = [B, N1, c],
       elems = map (\<lambda>p. (\<Sum>h\<leftarrow>[0..<H]. elems t ! (((p div c) * H + h) * c + p mod c)) / real H)
                   [0..<B * N1 * c]\<rparr>)"

subsection \<open>forward\<close>

text \<open>
  Lines 30 to 32: the projected features as \<open>[B, N, H, c]\<close>. \<^verbatim>\<open>size(1)\<close> needs an input
  of at least two dimensions.
\<close>

definition project :: "layer \<Rightarrow> tensor \<Rightarrow> error + tensor" where
  "project L node_feats =
     (case shape node_feats of
        B # N # _ \<Rightarrow> bindE (linear (projection L) node_feats) (\<lambda>y. view4 y B N (num_heads L))
      | _ \<Rightarrow> Inl TensorError)"

text \<open>
  Lines 36 to 53, given the projected features: the attention probabilities. The
  adjacency must have three dimensions: with fewer, \<^verbatim>\<open>edges[:, 2]\<close> fails, with more,
  \<^verbatim>\<open>repeat(1, 1, 1, H)\<close> does.
\<close>

definition attention :: "layer \<Rightarrow> tensor \<Rightarrow> tensor \<Rightarrow> error + tensor" where
  "attention L nf adj =
     (if length (shape adj) \<noteq> 3 then Inl TensorError
      else bindE (attn_logits L nf adj) (\<lambda>lg.
           bindE (attn_matrix L adj lg) (\<lambda>am. Inr (softmax_dim2 am))))"

text \<open>
  \<^verbatim>\<open>forward\<close>: what is printed, and the value returned or the failure raised.
\<close>

definition forward :: "layer \<Rightarrow> tensor \<Rightarrow> tensor \<Rightarrow> bool \<Rightarrow> tensor list \<times> (error + tensor)" where
  "forward L node_feats adj_matrix print_attn_probs =
     (case project L node_feats of
        Inl e \<Rightarrow> ([], Inl e)
      | Inr nf \<Rightarrow>
          (case attention L nf adj_matrix of
             Inl e \<Rightarrow> ([], Inl e)
           | Inr attn_probs \<Rightarrow>
               (if print_attn_probs then [permute_0312 attn_probs] else [],
                bindE (aggregate attn_probs nf) (\<lambda>out.
                  if concat_heads L then reshape3 out (shape nf ! 0) (shape nf ! 1)
                  else Inr (mean_dim2 out)))))"

subsection \<open>Reading tensors, and the stages of forward as functions of its inputs\<close>

definition at3 :: "tensor \<Rightarrow> nat \<Rightarrow> nat \<Rightarrow> nat \<Rightarrow> real" where
  "at3 t i0 i1 i2 = elems t ! ((i0 * (shape t ! 1) + i1) * (shape t ! 2) + i2)"

definition at4 :: "tensor \<Rightarrow> nat \<Rightarrow> nat \<Rightarrow> nat \<Rightarrow> nat \<Rightarrow> real" where
  "at4 t i0 i1 i2 i3 =
     elems t ! (((i0 * (shape t ! 1) + i1) * (shape t ! 2) + i2) * (shape t ! 3) + i3)"

text \<open>The tensors \<^verbatim>\<open>attn_logits\<close> (line 46), \<^verbatim>\<open>attn_matrix\<close> (line 50),
  \<^verbatim>\<open>attn_probs\<close> (line 53) and \<^verbatim>\<open>node_feats\<close> after line 56.\<close>

definition logits_of :: "layer \<Rightarrow> tensor \<Rightarrow> tensor \<Rightarrow> error + tensor" where
  "logits_of L node_feats adj =
     bindE (project L node_feats) (\<lambda>nf.
       if length (shape adj) \<noteq> 3 then Inl TensorError else attn_logits L nf adj)"

definition matrix_of :: "layer \<Rightarrow> tensor \<Rightarrow> tensor \<Rightarrow> error + tensor" where
  "matrix_of L node_feats adj = bindE (logits_of L node_feats adj) (attn_matrix L adj)"

definition attn_probs :: "layer \<Rightarrow> tensor \<Rightarrow> tensor \<Rightarrow> error + tensor" where
  "attn_probs L node_feats adj = bindE (project L node_feats) (\<lambda>nf. attention L nf adj)"

definition head_outputs :: "layer \<Rightarrow> tensor \<Rightarrow> tensor \<Rightarrow> error + tensor" where
  "head_outputs L node_feats adj =
     bindE (project L node_feats) (\<lambda>nf.
       bindE (attention L nf adj) (\<lambda>pr. aggregate pr nf))"

text \<open>
  The row of \<^verbatim>\<open>attn_logits\<close> that belongs to the adjacency entry \<open>(b, i, j)\<close>: the number
  of nonzero entries before it in row-major order.
\<close>

definition edge_index :: "tensor \<Rightarrow> nat \<Rightarrow> nat \<Rightarrow> nat \<Rightarrow> nat" where
  "edge_index adj b i j =
     length (filter (\<lambda>p. elems adj ! p \<noteq> 0) [0..<(b * (shape adj ! 1) + i) * (shape adj ! 2) + j])"

subsection \<open>The inputs of the forward contract\<close>

text \<open>
  A layer with \<open>H > 0\<close> heads of width \<open>c\<close> on \<open>cin\<close> input features, a node feature batch
  of shape \<open>[B, N, cin]\<close> and an adjacency batch of shape \<open>[B, N, N]\<close>, for a batch and
  a graph that are not empty.
\<close>

definition valid_shapes :: "layer \<Rightarrow> tensor \<Rightarrow> tensor \<Rightarrow> nat \<Rightarrow> nat \<Rightarrow> nat \<Rightarrow> nat \<Rightarrow> bool" where
  "valid_shapes L node_feats adj B N cin c =
     (layer_ok L cin c \<and> 0 < num_heads L \<and> 0 < B \<and> 0 < N \<and>
      shape node_feats = [B, N, cin] \<and> wf_tensor node_feats \<and>
      shape adj = [B, N, N] \<and> wf_tensor adj)"

definition binary :: "tensor \<Rightarrow> bool" where
  "binary adj = list_all (\<lambda>v. v = 0 \<or> v = 1) (elems adj)"

subsection \<open>The attention logit in the words of the specification\<close>

text \<open>
  The projected feature vector of node \<open>i\<close> in batch \<open>b\<close> for head \<open>h\<close>: the entries
  \<open>h * c ..< h * c + c\<close> of the projection applied to the node's input features. The
  attention vector of head \<open>h\<close>: row \<open>h\<close> of \<^verbatim>\<open>a\<close>.
\<close>

definition dot :: "real list \<Rightarrow> real list \<Rightarrow> real" where
  "dot xs ys = sum_list (map2 (*) xs ys)"

definition projected :: "layer \<Rightarrow> tensor \<Rightarrow> nat \<Rightarrow> nat \<Rightarrow> nat \<Rightarrow> real list" where
  "projected L node_feats b i h =
     (let cin = shape (projection L) ! 1; c = head_width L in
      map (\<lambda>k. \<Sum>m\<leftarrow>[0..<cin]. at3 node_feats b i m * elems (projection L) ! ((h * c + k) * cin + m))
          [0..<c])"

definition a_row :: "layer \<Rightarrow> nat \<Rightarrow> real list" where
  "a_row L h = take (2 * head_width L) (drop (h * (2 * head_width L)) (elems (a L)))"

definition spec_logit :: "layer \<Rightarrow> tensor \<Rightarrow> nat \<Rightarrow> nat \<Rightarrow> nat \<Rightarrow> nat \<Rightarrow> real" where
  "spec_logit L node_feats b i j h =
     leakyrelu (alpha L) (dot (a_row L h) (projected L node_feats b i h @ projected L node_feats b j h))"

subsection \<open>forward on a store of tensor storages\<close>

text \<open>
  To say what \<^verbatim>\<open>forward\<close> writes to, tensors become references into a store: a list of
  storages, a storage being the entries of a contiguous tensor. The node features, the
  adjacency and the two parameters are storages of the caller's. An operation that returns a
  new tensor appends a storage; \<^verbatim>\<open>view\<close> and \<^verbatim>\<open>reshape\<close> return a reference to
  the same storage with another shape; \<^verbatim>\<open>fill_\<close> and the indexed assignment of line 50
  overwrite the storage they are applied to. Every tensor is read from the store as it is at
  that line. The tensors of lines 36 to 45 (the edge list, its index columns, the selected rows
  and their concatenation) are read only by lines 36 to 46 and are not given storages of
  their own: \<^const>\<open>attn_logits\<close> computes line 46 from the projected features directly.
\<close>

type_synonym store = "real list list"

record tref =
  addr :: nat
  tshape :: "nat list"

definition deref :: "store \<Rightarrow> tref \<Rightarrow> tensor" where
  "deref s r = \<lparr>shape = tshape r, elems = s ! addr r\<rparr>"

definition alloc :: "tensor \<Rightarrow> store \<Rightarrow> tref \<times> store" where
  "alloc t s = (\<lparr>addr = length s, tshape = shape t\<rparr>, s @ [elems t])"

definition overwrite :: "tref \<Rightarrow> real list \<Rightarrow> store \<Rightarrow> store" where
  "overwrite r v s = s[addr r := v]"

record layer_ref =
  heads :: nat
  concat_flag :: bool
  projection_ref :: tref
  a_ref :: tref
  neg_slope :: real

definition layer_at :: "store \<Rightarrow> layer_ref \<Rightarrow> layer" where
  "layer_at s LR = \<lparr>num_heads = heads LR, concat_heads = concat_flag LR,
                    projection = deref s (projection_ref LR), a = deref s (a_ref LR),
                    alpha = neg_slope LR\<rparr>"

text \<open>Lines 30 to 32: the projection allocates, the view shares its storage.\<close>

definition st_project :: "layer_ref \<Rightarrow> tref \<Rightarrow> store \<Rightarrow> (error + tref) \<times> store" where
  "st_project LR xr s =
     (case tshape xr of
        B # N # _ \<Rightarrow>
          (case linear (deref s (projection_ref LR)) (deref s xr) of
             Inl e \<Rightarrow> (Inl e, s)
           | Inr y \<Rightarrow>
               (case alloc y s of
                  (ry, s1) \<Rightarrow>
                    (case view4 (deref s1 ry) B N (heads LR) of
                       Inl e \<Rightarrow> (Inl e, s1)
                     | Inr v \<Rightarrow> (Inr (ry\<lparr>tshape := shape v\<rparr>), s1))))
      | _ \<Rightarrow> (Inl TensorError, s))"

text \<open>
  Lines 36 to 53. Line 46 allocates the logits; line 49 allocates a tensor of zeros and
  \<^verbatim>\<open>fill_\<close> overwrites it; line 50 overwrites it again; line 53 allocates the
  probabilities.
\<close>

definition st_attention :: "layer_ref \<Rightarrow> tref \<Rightarrow> tref \<Rightarrow> store \<Rightarrow> (error + tref) \<times> store" where
  "st_attention LR nfr ar s =
     (if length (tshape ar) \<noteq> 3 then (Inl TensorError, s)
      else
        (case attn_logits (layer_at s LR) (deref s nfr) (deref s ar) of
           Inl e \<Rightarrow> (Inl e, s)
         | Inr lg \<Rightarrow>
             (case alloc lg s of
                (rlg, s1) \<Rightarrow>
                  (case alloc \<lparr>shape = tshape ar @ [heads LR],
                               elems = replicate (prod_list (tshape ar @ [heads LR])) 0\<rparr> s1 of
                     (ram, s2) \<Rightarrow>
                       let s3 = overwrite ram (replicate (prod_list (tshape ar @ [heads LR])) sentinel) s2 in
                       (case index_put_mask (adj_mask (deref s3 ar) (heads LR))
                               (elems (deref s3 ram)) (elems (deref s3 rlg)) of
                          Inl e \<Rightarrow> (Inl e, s3)
                        | Inr vs \<Rightarrow>
                            let s4 = overwrite ram vs s3 in
                            (case alloc (softmax_dim2 (deref s4 ram)) s4 of
                               (rpr, s5) \<Rightarrow> (Inr rpr, s5)))))))"

text \<open>
  Lines 56 to 62: the einsum allocates; \<^verbatim>\<open>reshape\<close> of its contiguous result shares the
  storage; \<^verbatim>\<open>mean\<close> allocates.
\<close>

definition st_output :: "layer_ref \<Rightarrow> tref \<Rightarrow> tref \<Rightarrow> store \<Rightarrow> (error + tref) \<times> store" where
  "st_output LR nfr rpr s =
     (case aggregate (deref s rpr) (deref s nfr) of
        Inl e \<Rightarrow> (Inl e, s)
      | Inr ag \<Rightarrow>
          (case alloc ag s of
             (rag, s1) \<Rightarrow>
               if concat_flag LR then
                 (case reshape3 (deref s1 rag) (tshape nfr ! 0) (tshape nfr ! 1) of
                    Inl e \<Rightarrow> (Inl e, s1)
                  | Inr v \<Rightarrow> (Inr (rag\<lparr>tshape := shape v\<rparr>), s1))
               else
                 (case alloc (mean_dim2 (deref s1 rag)) s1 of
                    (ro, s2) \<Rightarrow> (Inr ro, s2))))"

definition forward_st ::
  "layer_ref \<Rightarrow> tref \<Rightarrow> tref \<Rightarrow> bool \<Rightarrow> store \<Rightarrow> (tensor list \<times> (error + tref)) \<times> store" where
  "forward_st LR node_feats adj_matrix print_attn_probs s =
     (case st_project LR node_feats s of
        (Inl e, s1) \<Rightarrow> (([], Inl e), s1)
      | (Inr nfr, s1) \<Rightarrow>
          (case st_attention LR nfr adj_matrix s1 of
             (Inl e, s2) \<Rightarrow> (([], Inl e), s2)
           | (Inr rpr, s2) \<Rightarrow>
               (case st_output LR nfr rpr s2 of
                  (r, s3) \<Rightarrow>
                    ((if print_attn_probs then [permute_0312 (deref s2 rpr)] else [], r), s3))))"

text \<open>The caller's storages of a call: the two inputs and the two parameters.\<close>

definition refs_in :: "store \<Rightarrow> layer_ref \<Rightarrow> tref \<Rightarrow> tref \<Rightarrow> bool" where
  "refs_in s LR xr ar =
     (addr xr < length s \<and> addr ar < length s \<and>
      addr (projection_ref LR) < length s \<and> addr (a_ref LR) < length s)"

subsection \<open>Example inputs\<close>

text \<open>
  A layer with two heads of width 1 on one input feature, a batch of one graph with two
  nodes, and four adjacency batches for it: node 1 attending to both nodes; node 0 without
  any neighbour; an entry equal to 2; a single nonzero entry equal to 2. Then a one-head
  layer, and a graph of a single node with its self-loop.
\<close>

definition ex_layer :: layer where
  "ex_layer = \<lparr>num_heads = 2, concat_heads = True,
               projection = \<lparr>shape = [2, 1], elems = [1, 2]\<rparr>,
               a = \<lparr>shape = [2, 2], elems = [1, - 1, 2, 1]\<rparr>, alpha = 1 / 5\<rparr>"

definition ex_feats :: tensor where
  "ex_feats = \<lparr>shape = [1, 2, 1], elems = [3, 5]\<rparr>"

definition ex_adj :: tensor where
  "ex_adj = \<lparr>shape = [1, 2, 2], elems = [1, 0, 1, 1]\<rparr>"

definition ex_adj_isolated :: tensor where
  "ex_adj_isolated = \<lparr>shape = [1, 2, 2], elems = [0, 0, 1, 1]\<rparr>"

definition ex_adj_two :: tensor where
  "ex_adj_two = \<lparr>shape = [1, 2, 2], elems = [1, 2, 0, 1]\<rparr>"

definition ex_adj_single :: tensor where
  "ex_adj_single = \<lparr>shape = [1, 2, 2], elems = [2, 0, 0, 0]\<rparr>"

definition ex_layer1 :: layer where
  "ex_layer1 = \<lparr>num_heads = 1, concat_heads = False,
                projection = \<lparr>shape = [1, 1], elems = [2]\<rparr>,
                a = \<lparr>shape = [1, 2], elems = [1, 1]\<rparr>, alpha = 1 / 5\<rparr>"

text \<open>Node features whose projections cancel over the two nodes.\<close>

definition ex_feats_cancel :: tensor where
  "ex_feats_cancel = \<lparr>shape = [1, 2, 1], elems = [3, - 3]\<rparr>"

definition ex_feats1 :: tensor where
  "ex_feats1 = \<lparr>shape = [1, 1, 1], elems = [3]\<rparr>"

definition ex_adj1 :: tensor where
  "ex_adj1 = \<lparr>shape = [1, 1, 1], elems = [1]\<rparr>"

text \<open>The example inputs as a store: features, adjacency, projection weight and \<^verbatim>\<open>a\<close>.\<close>

definition ex_store :: store where
  "ex_store = [[3, 5], [1, 0, 1, 1], [1, 2], [1, - 1, 2, 1]]"

definition ex_layer_ref :: layer_ref where
  "ex_layer_ref = \<lparr>heads = 2, concat_flag = True,
                   projection_ref = \<lparr>addr = 2, tshape = [2, 1]\<rparr>,
                   a_ref = \<lparr>addr = 3, tshape = [2, 2]\<rparr>, neg_slope = 1 / 5\<rparr>"

definition ex_feats_ref :: tref where
  "ex_feats_ref = \<lparr>addr = 0, tshape = [1, 2, 1]\<rparr>"

definition ex_adj_ref :: tref where
  "ex_adj_ref = \<lparr>addr = 1, tshape = [1, 2, 2]\<rparr>"

section \<open>Properties\<close>

subsection \<open>The constructor\<close>

lemma div_pos_of_dvd: "0 < (c_out::int) \<Longrightarrow> 0 < n \<Longrightarrow> c_out mod n = 0 \<Longrightarrow> 0 < c_out div n"
  by (metis leI mod_eq_self_iff_div_eq_0 order_less_imp_le pos_imp_zdiv_pos_iff zdiv_eq_0_iff)

lemma nat_double_half: "nat (2 * c) div 2 = nat c"
  by (cases "0 \<le> c") (simp_all add: nat_mult_distrib)

lemma init_success:
  assumes "0 < c_in" and "0 < c" and "0 < n_heads"
    and "concat_hs \<longrightarrow> n_heads \<noteq> 0 \<and> c_out mod n_heads = 0"
    and "c = (if concat_hs then c_out div n_heads else c_out)"
  shows "\<exists>L. init c_in c_out n_heads concat_hs slope gw ga = Inr L \<and> head_width L = nat c \<and>
     num_heads L = nat n_heads \<and> concat_heads L = concat_hs \<and> alpha L = slope \<and>
     layer_ok L (nat c_in) (nat c)"
proof -
  have m: "\<not> c * n_heads < 0" "c_in + c * n_heads \<noteq> 0" "2 * c + n_heads \<noteq> 0"
     "\<not> c_in < 0" "\<not> n_heads < 0" "\<not> 2 * c < 0"
    using assms(1-3) by (simp_all add: mult_less_0_iff add_pos_pos less_imp_neq[THEN not_sym])
  have eq: "init c_in c_out n_heads concat_hs slope gw ga =
    Inr \<lparr>num_heads = nat n_heads, concat_heads = concat_hs,
                  projection = \<lparr>shape = [nat (c * n_heads), nat c_in],
                                elems = map gw [0..<nat (c * n_heads) * nat c_in]\<rparr>,
                  a = \<lparr>shape = [nat n_heads, nat (2 * c)],
                       elems = map ga [0..<nat n_heads * nat (2 * c)]\<rparr>,
                  alpha = slope\<rparr>"
    unfolding init_def Let_def assms(5)[symmetric] using m assms(4) by simp
  show ?thesis unfolding eq using assms(1-3)
    by (simp add: head_width_def layer_ok_def wf_tensor_def nat_double_half nat_mult_distrib)
qed

text \<open>
  C4. For positive \<open>c_in\<close>, \<open>c_out\<close> and \<open>num_heads\<close> (the constructor's contract):
  with \<open>concat_heads\<close> true the constructor fails exactly when \<open>c_out mod num_heads\<close> is
  not zero, and then by its assertion; when it succeeds the per-head width is
  \<open>c_out div num_heads\<close>, and \<open>num_heads\<close> such heads make up \<open>c_out\<close>. With
  \<open>concat_heads\<close> false it succeeds whatever the remainder, with per-head width \<open>c_out\<close>.
\<close>

theorem init_divisibility:
  assumes "0 < c_in" and "0 < c_out" and "0 < n_heads"
  shows "((\<exists>e. init c_in c_out n_heads True slope gw ga = Inl e) \<longleftrightarrow> c_out mod n_heads \<noteq> 0) \<and>
         (c_out mod n_heads \<noteq> 0 \<longrightarrow> init c_in c_out n_heads True slope gw ga = Inl AssertionError) \<and>
         (\<forall>L. init c_in c_out n_heads True slope gw ga = Inr L \<longrightarrow>
              head_width L = nat (c_out div n_heads) \<and> int (head_width L) * n_heads = c_out) \<and>
         (\<exists>L. init c_in c_out n_heads False slope gw ga = Inr L \<and> head_width L = nat c_out)"
proof (cases "c_out mod n_heads = 0")
  case True
  have p: "0 < c_out div n_heads" using div_pos_of_dvd assms True by simp
  from init_success[OF assms(1) p assms(3), of True c_out slope gw ga] True assms(3)
  obtain L where L: "init c_in c_out n_heads True slope gw ga = Inr L"
      "head_width L = nat (c_out div n_heads)"
    by auto
  have "int (nat (c_out div n_heads)) * n_heads = c_out" using p True by auto
  with L True init_success[OF assms(1) assms(2) assms(3), of False c_out slope gw ga]
  show ?thesis by auto
next
  case False
  then have "init c_in c_out n_heads True slope gw ga = Inl AssertionError"
    using assms(3) by (simp add: init_def)
  with False init_success[OF assms(1) assms(2) assms(3), of False c_out slope gw ga]
  show ?thesis by auto
qed

theorem init_divisibility_witness:
  "(0::int) < 3 \<and> (0::int) < 10 \<and> init 3 10 3 True (1/5) (\<lambda>_. 0) (\<lambda>_. 0) = Inl AssertionError \<and>
   (\<exists>L. init 3 10 2 True (1/5) (\<lambda>_. 0) (\<lambda>_. 0) = Inr L \<and> head_width L = 5) \<and>
   (\<exists>L. init 3 10 3 False (1/5) (\<lambda>_. 0) (\<lambda>_. 0) = Inr L \<and> head_width L = 10)"
  using init_divisibility [of 3 10 3 "1/5" "\<lambda>_. 0" "\<lambda>_. 0"]
        init_divisibility [of 3 10 2 "1/5" "\<lambda>_. 0" "\<lambda>_. 0"]
  by (auto simp: init_def head_width_def)

subsection \<open>Row-major indexing and the projection\<close>

lemma flat_lt: "(i::nat) < m \<Longrightarrow> j < n \<Longrightarrow> i * n + j < m * n"
proof -
  assume a: "i < m" "j < n"
  have "i * n + j < i * n + n" using a by simp
  also have "\<dots> = Suc i * n" by simp
  also have "\<dots> \<le> m * n" using a by (intro mult_le_mono1) simp
  finally show ?thesis .
qed

lemma flat_div: "(j::nat) < n \<Longrightarrow> (i * n + j) div n = i"
  by simp

lemma flat_mod: "(j::nat) < n \<Longrightarrow> (i * n + j) mod n = j"
  by simp

lemma flat_div2: "(j::nat) < n \<Longrightarrow> h < H \<Longrightarrow> ((i * n + j) * H + h) div (H * n) = i"
  by (simp add: div_mult2_eq)

lemma flat_div2': "(j::nat) < n \<Longrightarrow> h < H \<Longrightarrow> ((i * n + j) * H + h) div (n * H) = i"
  by (simp add: div_mult2_eq mult.commute)

lemma tab_nth: "p < n \<Longrightarrow> map f [0..<n] ! p = f p"
  by simp

lemma project_valid:
  assumes "valid_shapes L x adj B N cin c"
  shows "\<exists>nf. project L x = Inr nf \<and> shape nf = [B, N, num_heads L, c] \<and>
           length (elems nf) = B * N * num_heads L * c \<and>
           (\<forall>r < B * N. \<forall>q < c * num_heads L. elems nf ! (r * (c * num_heads L) + q) =
               (\<Sum>k\<leftarrow>[0..<cin]. elems x ! (r * cin + k) * elems (projection L) ! (q * cin + k)))"
proof -
  let ?H = "num_heads L"
  have sh: "shape (projection L) = [c * ?H, cin]" "shape x = [B, N, cin]" "0 < ?H" "0 < B" "0 < N"
    using assms by (auto simp: valid_shapes_def layer_ok_def)
  define y where "y = \<lparr>shape = [B, N, c * ?H],
        elems = map (\<lambda>p. \<Sum>k\<leftarrow>[0..<cin].
                   elems x ! ((p div (c * ?H)) * cin + k) * elems (projection L) ! ((p mod (c * ?H)) * cin + k))
                              [0..<B * N * (c * ?H)]\<rparr>"
  have lin: "linear (projection L) x = Inr y"
    by (simp add: linear_def sh y_def)
  have dv: "B * N * ?H dvd B * N * (c * ?H)" by simp
  have dq: "B * N * (c * ?H) div (B * N * ?H) = c"
    using sh by simp
  have v: "view4 y B N ?H = Inr \<lparr>shape = [B, N, ?H, c], elems = elems y\<rparr>"
    using sh dq by (simp add: view4_def y_def)
  have pr: "project L x = Inr \<lparr>shape = [B, N, ?H, c], elems = elems y\<rparr>"
    by (simp add: project_def sh lin bindE_def v)
  have el: "elems y ! (r * (c * ?H) + q) =
      (\<Sum>k\<leftarrow>[0..<cin]. elems x ! (r * cin + k) * elems (projection L) ! (q * cin + k))"
    if "r < B * N" "q < c * ?H" for r q
  proof -
    have "r * (c * ?H) + q < B * N * (c * ?H)" using that by (rule flat_lt)
    then show ?thesis using flat_div[OF that(2), of r] flat_mod[OF that(2), of r]
      by (simp add: y_def)
  qed
  show ?thesis using pr el by (simp add: y_def mult.assoc mult.commute[of c])
qed

subsection \<open>The masked assignment of line 50\<close>

lemma concat_uniform_length:
  "(\<And>x. x \<in> set xs \<Longrightarrow> length (g x) = H) \<Longrightarrow> length (concat (map g xs)) = length xs * H"
  by (induction xs) simp_all

lemma concat_uniform_nth:
  "(\<And>x. x \<in> set xs \<Longrightarrow> length (g x) = H) \<Longrightarrow> p < length xs \<Longrightarrow> h < H \<Longrightarrow>
     concat (map g xs) ! (p * H + h) = g (xs ! p) ! h"
proof (induction xs arbitrary: p)
  case Nil
  then show ?case by simp
next
  case (Cons x xs)
  show ?case
  proof (cases p)
    case 0
    then show ?thesis using Cons.prems by (simp add: nth_append)
  next
    case (Suc q)
    have "concat (map g (x # xs)) ! (Suc q * H + h) = concat (map g xs) ! (q * H + h)"
      using Cons.prems(1)[of x] by (simp add: nth_append)
    also have "\<dots> = g (xs ! q) ! h"
      using Cons.prems Suc by (intro Cons.IH) auto
    finally show ?thesis using Suc by simp
  qed
qed

lemma masked_put_true_block:
  "length v = H \<Longrightarrow> masked_put (replicate H True @ ms) (replicate H s @ xs) (v @ vs) = v @ masked_put ms xs vs"
proof (induction H arbitrary: v)
  case 0
  then show ?case by simp
next
  case (Suc H)
  then obtain w ws where v: "v = w # ws" "length ws = H" by (cases v) auto
  then show ?case using Suc.IH[of ws] by simp
qed

lemma masked_put_false_block:
  "masked_put (replicate H False @ ms) (replicate H s @ xs) vs = replicate H s @ masked_put ms xs vs"
  by (induction H) simp_all

lemma masked_put_nil: "masked_put [] xs vs = xs"
  by (cases xs) simp_all

lemma masked_put_blocks:
  assumes "\<And>p. p \<in> set ps \<Longrightarrow> length (f p) = H"
  shows "masked_put (concat (map (\<lambda>p. replicate H (P p)) ps)) (concat (map (\<lambda>p. replicate H s) ps))
           (concat (map f (filter P ps)))
         = concat (map (\<lambda>p. if P p then f p else replicate H s) ps)"
  using assms
proof (induction ps)
  case Nil
  then show ?case by simp
next
  case (Cons p ps)
  have IH: "masked_put (concat (map (\<lambda>p. replicate H (P p)) ps)) (concat (map (\<lambda>p. replicate H s) ps))
           (concat (map f (filter P ps)))
         = concat (map (\<lambda>p. if P p then f p else replicate H s) ps)"
    using Cons.prems by (intro Cons.IH) simp
  show ?case
  proof (cases "P p")
    case True
    have "length (f p) = H" using Cons.prems by simp
    then show ?thesis using True IH by (simp add: masked_put_true_block)
  next
    case False
    then show ?thesis using IH by (simp add: masked_put_false_block)
  qed
qed

lemma mask_count:
  "length (filter (\<lambda>m. m) (concat (map (\<lambda>p. replicate H (P p)) ps))) = length (filter P ps) * H"
  by (induction ps) simp_all

lemma replicate_blocks: "concat (map (\<lambda>p. replicate H s) ps) = replicate (length ps * H) s"
  by (induction ps) (simp_all add: replicate_add)

lemma index_put_mask_blocks:
  assumes "\<And>p. p \<in> set ps \<Longrightarrow> length (f p) = H"
  shows "index_put_mask (concat (map (\<lambda>p. replicate H (P p)) ps)) (replicate (length ps * H) s)
           (concat (map f (filter P ps)))
         = Inr (concat (map (\<lambda>p. if P p then f p else replicate H s) ps))"
proof -
  have "length (concat (map f (filter P ps))) = length (filter P ps) * H"
    using assms by (intro concat_uniform_length) simp
  then show ?thesis
    using masked_put_blocks[where ps=ps and f=f and H=H and P=P and s=s] assms
    by (simp add: index_put_mask_def mask_count replicate_blocks)
qed

subsection \<open>Edges, their logits and the dense attention tensor\<close>

lemma unravel3_flat: "i < N \<Longrightarrow> j < N2 \<Longrightarrow> unravel3 N N2 ((b * N + i) * N2 + j) = (b, i, j)"
  by (simp add: unravel3_def div_mult2_eq mult.commute[of N N2])

lemma unravel3_range:
  assumes "p < B * N1 * N2"
  shows "\<exists>b i j. unravel3 N1 N2 p = (b, i, j) \<and> b < B \<and> i < N1 \<and> j < N2 \<and> p = (b * N1 + i) * N2 + j"
proof -
  have pos: "0 < N1" "0 < N2" using assms by (cases N1; cases N2; simp)+
  have b: "p div (N1 * N2) < B" using assms by (simp add: less_mult_imp_div_less mult.assoc)
  have "(p div (N1 * N2) * N1 + (p div N2) mod N1) * N2 + p mod N2 = p"
  proof -
    have "p div (N1 * N2) = (p div N2) div N1" by (metis div_mult2_eq mult.commute)
    then have "p div (N1 * N2) * N1 + (p div N2) mod N1 = p div N2" by simp
    then show ?thesis by simp
  qed
  then show ?thesis using b pos by (simp add: unravel3_def)
qed

lemma nonzero_in_range:
  assumes "shape adj = [B, N1, N2]" and "e \<in> set (nonzero adj)"
  shows "\<exists>b i j. e = (b, i, j) \<and> b < B \<and> i < N1 \<and> j < N2"
proof -
  from assms obtain p where p: "p < B * N1 * N2" "e = unravel3 N1 N2 p"
    by (auto simp: nonzero_def nonzero_pos_def mult.assoc)
  from unravel3_range[OF p(1)] p(2) show ?thesis by auto
qed

lemma edge_logits_length: "length (edge_logits L nf e) = num_heads L"
  by (cases e) (simp add: edge_logits_def Let_def)

lemma attn_logits_valid:
  assumes "shape nf = [B, N, num_heads L, c]" and "shape adj = [B, N, N]"
    and "shape (a L) = [num_heads L, 2 * c]"
  shows "attn_logits L nf adj =
           Inr \<lparr>shape = [length (nonzero adj), num_heads L],
                elems = concat (map (edge_logits L nf) (nonzero adj))\<rparr>"
proof -
  have "\<not> (\<exists>e \<in> set (nonzero adj). case e of (b, i, j) \<Rightarrow> B * N \<le> b * N + i \<or> B * N \<le> b * N + j)"
  proof
    assume "\<exists>e \<in> set (nonzero adj). case e of (b, i, j) \<Rightarrow> B * N \<le> b * N + i \<or> B * N \<le> b * N + j"
    then obtain e where e: "e \<in> set (nonzero adj)"
      "case e of (b, i, j) \<Rightarrow> B * N \<le> b * N + i \<or> B * N \<le> b * N + j" by blast
    from nonzero_in_range[OF assms(2) e(1)] obtain b i j where
      bij: "e = (b, i, j)" "b < B" "i < N" "j < N" by blast
    have "b * N + i < B * N" "b * N + j < B * N" using bij by (simp_all add: flat_lt)
    with e(2) bij(1) show False by simp
  qed
  then show ?thesis using assms by (simp add: attn_logits_def Let_def)
qed

lemma nonzero_binary:
  assumes "binary adj" and "wf_tensor adj"
  shows "nonzero_pos adj = filter (\<lambda>p. elems adj ! p = 1) [0..<prod_list (shape adj)]"
proof -
  have "elems adj ! p \<noteq> 0 \<longleftrightarrow> elems adj ! p = 1" if "p < prod_list (shape adj)" for p
  proof -
    have "elems adj ! p \<in> set (elems adj)" using that assms(2) by (simp add: wf_tensor_def)
    then have "elems adj ! p = 0 \<or> elems adj ! p = 1"
      using assms(1) by (simp add: binary_def list_all_iff)
    then show ?thesis by auto
  qed
  then show ?thesis unfolding nonzero_pos_def by (intro filter_cong) auto
qed

lemma attn_matrix_binary:
  assumes "binary adj" and "wf_tensor adj" and "shape adj = [B, N, N]" and "num_heads L = H"
    and "elems lg = concat (map (edge_logits L nf) (nonzero adj))"
  shows "attn_matrix L adj lg =
           Inr \<lparr>shape = [B, N, N, H],
                elems = concat (map (\<lambda>p. if elems adj ! p = 1 then edge_logits L nf (unravel3 N N p)
                                          else replicate H sentinel) [0..<B * N * N])\<rparr>"
proof -
  let ?ps = "[0..<B * N * N]"
  let ?P = "\<lambda>p. elems adj ! p = 1"
  let ?f = "\<lambda>p. edge_logits L nf (unravel3 N N p)"
  have pl: "prod_list (shape adj) = B * N * N" using assms(3) by simp
  have lg: "elems lg = concat (map ?f (filter ?P ?ps))"
    by (simp add: assms(5) nonzero_def nonzero_binary[OF assms(1,2)] assms(3) comp_def mult.assoc)
  have msk: "adj_mask adj H = concat (map (\<lambda>p. replicate H (?P p)) ?ps)"
    by (simp add: adj_mask_def pl)
  have len: "prod_list (shape adj @ [H]) = length ?ps * H" using assms(3) by simp
  have "index_put_mask (adj_mask adj H) (replicate (prod_list (shape adj @ [H])) sentinel) (elems lg)
       = Inr (concat (map (\<lambda>p. if ?P p then ?f p else replicate H sentinel) ?ps))"
    unfolding msk lg len
    by (rule index_put_mask_blocks) (simp add: edge_logits_length assms(4))
  then show ?thesis by (simp add: attn_matrix_def assms(3,4) bindE_def)
qed

subsection \<open>The code's logit is the specification's logit\<close>

lemma filter_upt_nth:
  assumes "P p" and "p < M"
  shows "filter P [0..<M] ! length (filter P [0..<p]) = p"
    and "length (filter P [0..<p]) < length (filter P [0..<M])"
proof -
  have "[0..<M] = [0..<p] @ p # [Suc p..<M]"
    using assms(2) by (metis less_imp_le_nat upt_add_eq_append upt_conv_Cons le_add_diff_inverse zero_le add_0)
  then have f: "filter P [0..<M] = filter P [0..<p] @ p # filter P [Suc p..<M]"
    using assms(1) by (metis filter.simps(2) filter_append)
  show "filter P [0..<M] ! length (filter P [0..<p]) = p"
    unfolding f by simp
  show "length (filter P [0..<p]) < length (filter P [0..<M])"
    unfolding f by simp
qed

lemma dot_nth:
  assumes "length xs = n" and "length ys = n"
  shows "dot xs ys = (\<Sum>k\<leftarrow>[0..<n]. xs ! k * ys ! k)"
proof -
  have "map2 (*) xs ys = map (\<lambda>k. xs ! k * ys ! k) [0..<n]"
    using assms by (intro nth_equalityI) simp_all
  then show ?thesis by (simp add: dot_def)
qed

lemma sum_list_upt_cong:
  "(\<And>k. k < n \<Longrightarrow> f k = g k) \<Longrightarrow> (\<Sum>k\<leftarrow>[0..<n]. f k) = (\<Sum>k\<leftarrow>[0..<n]. (g k :: real))"
  by (rule arg_cong[where f=sum_list], rule map_cong) simp_all

lemma a_row_bound:
  assumes "layer_ok L cin c" and "h < num_heads L"
  shows "h * (2 * c) + 2 * c \<le> length (elems (a L))"
proof -
  have len: "length (elems (a L)) = num_heads L * (2 * c)"
    using assms(1) by (simp add: layer_ok_def wf_tensor_def)
  have "h * (2 * c) + 2 * c = Suc h * (2 * c)" by simp
  also have "\<dots> \<le> num_heads L * (2 * c)" using assms(2) by (intro mult_le_mono1) simp
  finally show ?thesis using len by simp
qed

lemma a_row_length:
  assumes "layer_ok L cin c" and "h < num_heads L"
  shows "length (a_row L h) = 2 * c"
proof -
  have hw: "head_width L = c" using assms(1) by (simp add: layer_ok_def head_width_def)
  show ?thesis using a_row_bound[OF assms] by (simp add: a_row_def hw)
qed

lemma a_row_nth:
  assumes "layer_ok L cin c" and "h < num_heads L" and "k < 2 * c"
  shows "a_row L h ! k = elems (a L) ! (h * (2 * c) + k)"
proof -
  have hw: "head_width L = c" using assms(1) by (simp add: layer_ok_def head_width_def)
  have "h * (2 * c) \<le> length (elems (a L))" using a_row_bound[OF assms(1,2)] by simp
  then show ?thesis using assms(3) by (simp add: a_row_def hw)
qed

lemma projected_length:
  assumes "valid_shapes L x adj B N cin c"
  shows "length (projected L x b i h) = c"
  using assms by (simp add: projected_def Let_def valid_shapes_def layer_ok_def head_width_def)

lemma projected_nth:
  assumes "valid_shapes L x adj B N cin c" and "project L x = Inr nf"
    and "b < B" and "i < N" and "h < num_heads L" and "k < c"
  shows "projected L x b i h ! k = elems nf ! (((b * N + i) * num_heads L + h) * c + k)"
proof -
  let ?H = "num_heads L"
  have hw: "head_width L = c" "shape (projection L) ! Suc 0 = cin" "shape x = [B, N, cin]"
    using assms(1) by (simp_all add: valid_shapes_def layer_ok_def head_width_def)
  from project_valid[OF assms(1)] assms(2)
  have el: "\<And>r q. r < B * N \<Longrightarrow> q < c * ?H \<Longrightarrow> elems nf ! (r * (c * ?H) + q) =
               (\<Sum>k\<leftarrow>[0..<cin]. elems x ! (r * cin + k) * elems (projection L) ! (q * cin + k))"
    by auto
  have r: "b * N + i < B * N" using assms(3,4) by (rule flat_lt)
  have q: "h * c + k < c * ?H" using flat_lt[OF assms(5,6)] by (simp add: mult.commute)
  have idx: "((b * N + i) * ?H + h) * c + k = (b * N + i) * (c * ?H) + (h * c + k)"
    by (simp add: algebra_simps)
  show "projected L x b i h ! k = elems nf ! (((b * N + i) * ?H + h) * c + k)"
    unfolding idx el[OF r q] using assms(6)
    by (simp add: projected_def hw Let_def at3_def)
qed

lemma edge_logits_spec:
  assumes "valid_shapes L x adj B N cin c" and "project L x = Inr nf"
    and "b < B" and "i < N" and "j < N" and "h < num_heads L"
  shows "edge_logits L nf (b, i, j) ! h = spec_logit L x b i j h"
proof -
  let ?H = "num_heads L"
  from project_valid[OF assms(1)] assms(2) have sh: "shape nf = [B, N, ?H, c]" by auto
  have lok: "layer_ok L cin c" using assms(1) by (simp add: valid_shapes_def)
  note pi = projected_nth[OF assms(1,2,3,4,6)]
  note pj = projected_nth[OF assms(1,2,3,5,6)]
  note pl = projected_length[OF assms(1)]
  have len: "length (projected L x b i h @ projected L x b j h) = 2 * c"
    by (simp add: pl)
  have "dot (a_row L h) (projected L x b i h @ projected L x b j h) =
        (\<Sum>k\<leftarrow>[0..<2 * c]. a_row L h ! k * (projected L x b i h @ projected L x b j h) ! k)"
    using a_row_length[OF lok assms(6)] len by (rule dot_nth)
  also have "\<dots> = (\<Sum>k\<leftarrow>[0..<2 * c]. a_input nf (b * N + i) (b * N + j) h k * elems (a L) ! (h * (2 * c) + k))"
  proof (rule sum_list_upt_cong)
    fix k assume k: "k < 2 * c"
    have ar: "a_row L h ! k = elems (a L) ! (h * (2 * c) + k)"
      using a_row_nth[OF lok assms(6) k] .
    show "a_row L h ! k * (projected L x b i h @ projected L x b j h) ! k =
          a_input nf (b * N + i) (b * N + j) h k * elems (a L) ! (h * (2 * c) + k)"
    proof (cases "k < c")
      case True
      then show ?thesis using pi[OF True] ar
        by (simp add: a_input_def sh nth_append pl)
    next
      case False
      then have kc: "k - c < c" using k by simp
      show ?thesis using pj[OF kc] ar False
        by (simp add: a_input_def sh nth_append pl)
    qed
  qed
  finally show ?thesis
    using assms(6) by (simp add: spec_logit_def edge_logits_def sh)
qed

subsection \<open>The softmax over the source axis and the stages on 0/1 adjacencies\<close>

lemma flat4_lt: "b < B \<Longrightarrow> i < N1 \<Longrightarrow> j < N2 \<Longrightarrow> h < (H::nat) \<Longrightarrow>
    ((b * N1 + i) * N2 + j) * H + h < B * N1 * N2 * H"
  by (intro flat_lt) 

lemma flat3_lt: "b < B \<Longrightarrow> i < N1 \<Longrightarrow> j < (N2::nat) \<Longrightarrow> (b * N1 + i) * N2 + j < B * N1 * N2"
  by (intro flat_lt)

lemma sum_list_exp_pos: "xs \<noteq> [] \<Longrightarrow> 0 < (\<Sum>x\<leftarrow>xs. exp (f x :: real))"
proof (induction xs)
  case Nil
  then show ?case by simp
next
  case (Cons x xs)
  have "0 \<le> (\<Sum>x\<leftarrow>xs. exp (f x))" by (rule sum_list_nonneg) auto
  then show ?case by (simp add: add_pos_nonneg)
qed

lemma sum_list_div_const: "(\<Sum>x\<leftarrow>xs. f x / (d::real)) = (\<Sum>x\<leftarrow>xs. f x) / d"
  by (induction xs) (simp_all add: add_divide_distrib)

lemma softmax_dim2_entry:
  assumes "shape t = [B, N1, N2, H]" and "b < B" and "i < N1" and "j < N2" and "h < H"
  shows "at4 (softmax_dim2 t) b i j h =
           exp (at4 t b i j h) / (\<Sum>j'\<leftarrow>[0..<N2]. exp (at4 t b i j' h))"
proof -
  let ?p = "((b * N1 + i) * N2 + j) * H + h"
  have lt: "?p < B * N1 * N2 * H" using assms(2-5) by (rule flat4_lt)
  have pl: "prod_list (shape t) = B * N1 * N2 * H" by (simp add: assms(1) mult.assoc)
  have d: "?p div (H * N2) = b * N1 + i" using assms(4,5) by (rule flat_div2)
  have m: "?p mod H = h" using assms(5) by simp
  have "at4 (softmax_dim2 t) b i j h = elems (softmax_dim2 t) ! ?p"
    by (simp add: at4_def softmax_dim2_def assms(1) Let_def)
  also have "\<dots> = exp (elems t ! ?p) /
        (\<Sum>j'\<leftarrow>[0..<N2]. exp (elems t ! (((?p div (H * N2)) * N2 + j') * H + ?p mod H)))"
    using lt unfolding softmax_dim2_def Let_def pl by (simp add: assms(1))
  finally show ?thesis unfolding d m by (simp add: at4_def assms(1))
qed

lemma softmax_dim2_row_sum:
  assumes "shape t = [B, N1, N2, H]" and "b < B" and "i < N1" and "h < H" and "0 < N2"
  shows "(\<Sum>j\<leftarrow>[0..<N2]. at4 (softmax_dim2 t) b i j h) = 1"
proof -
  let ?S = "\<Sum>j'\<leftarrow>[0..<N2]. exp (at4 t b i j' h)"
  have pos: "0 < ?S" using assms(5) by (intro sum_list_exp_pos) simp
  have "(\<Sum>j\<leftarrow>[0..<N2]. at4 (softmax_dim2 t) b i j h) = (\<Sum>j\<leftarrow>[0..<N2]. exp (at4 t b i j h) / ?S)"
    by (rule sum_list_upt_cong) (simp add: softmax_dim2_entry[OF assms(1,2,3) _ assms(4)])
  also have "\<dots> = ?S / ?S" by (rule sum_list_div_const)
  also have "\<dots> = 1" using pos by simp
  finally show ?thesis .
qed

lemma stages_binary:
  assumes "valid_shapes L x adj B N cin c" and "binary adj"
  shows "\<exists>nf lg am. project L x = Inr nf \<and> shape nf = [B, N, num_heads L, c] \<and>
           logits_of L x adj = Inr lg \<and> shape lg = [length (nonzero adj), num_heads L] \<and>
           elems lg = concat (map (edge_logits L nf) (nonzero adj)) \<and>
           matrix_of L x adj = Inr am \<and> shape am = [B, N, N, num_heads L] \<and>
           length (elems am) = B * N * N * num_heads L \<and>
           attn_probs L x adj = Inr (softmax_dim2 am) \<and>
           (\<forall>b<B. \<forall>i<N. \<forall>j<N. \<forall>h<num_heads L.
              at4 am b i j h = (if at3 adj b i j = 1 then edge_logits L nf (b, i, j) ! h else sentinel))"
proof -
  let ?H = "num_heads L"
  from project_valid[OF assms(1)] obtain nf where
    nf: "project L x = Inr nf" "shape nf = [B, N, ?H, c]" by blast
  have sh: "shape adj = [B, N, N]" "wf_tensor adj" "shape (a L) = [?H, 2 * c]"
    using assms(1) by (simp_all add: valid_shapes_def layer_ok_def)
  define lg where "lg = \<lparr>shape = [length (nonzero adj), ?H],
                elems = concat (map (edge_logits L nf) (nonzero adj))\<rparr>"
  let ?g = "\<lambda>p. if elems adj ! p = 1 then edge_logits L nf (unravel3 N N p) else replicate ?H sentinel"
  define am where "am = \<lparr>shape = [B, N, N, ?H], elems = concat (map ?g [0..<B * N * N])\<rparr>"
  have l1: "attn_logits L nf adj = Inr lg"
    unfolding lg_def by (rule attn_logits_valid[OF nf(2) sh(1) sh(3)])
  have l2: "logits_of L x adj = Inr lg"
    by (simp add: logits_of_def nf(1) bindE_def sh(1) l1)
  have m1: "attn_matrix L adj lg = Inr am"
    unfolding am_def by (rule attn_matrix_binary[OF assms(2) sh(2) sh(1)]) (simp_all add: lg_def)
  have m2: "matrix_of L x adj = Inr am" by (simp add: matrix_of_def l2 bindE_def m1)
  have p: "attn_probs L x adj = Inr (softmax_dim2 am)"
    by (simp add: attn_probs_def nf(1) bindE_def attention_def sh(1) l1 m1)
  have glen: "\<And>p. length (?g p) = ?H" by (simp add: edge_logits_length)
  have len: "length (elems am) = B * N * N * ?H"
    unfolding am_def using concat_uniform_length[of "[0..<B * N * N]" ?g ?H] glen by simp
  have ent: "at4 am b i j h = (if at3 adj b i j = 1 then edge_logits L nf (b, i, j) ! h else sentinel)"
    if "b < B" "i < N" "j < N" "h < ?H" for b i j h
  proof -
    let ?p = "(b * N + i) * N + j"
    have lt: "?p < B * N * N" using that(1-3) by (rule flat3_lt)
    have "at4 am b i j h = concat (map ?g [0..<B * N * N]) ! (?p * ?H + h)"
      by (simp add: at4_def am_def)
    also have "\<dots> = ?g ([0..<B * N * N] ! ?p) ! h"
      using lt that(4) glen by (intro concat_uniform_nth) simp_all
    also have "\<dots> = ?g ?p ! h" using lt by simp
    finally show ?thesis using that(4) unravel3_flat[OF that(2,3), of b]
      by (simp add: at3_def sh(1))
  qed
  show ?thesis using nf l2 m2 p len ent by (auto simp: lg_def am_def)
qed

subsection \<open>The example inputs are inputs of the contract\<close>

lemma ex_layer_ok: "layer_ok ex_layer 1 1"
  by (simp add: layer_ok_def ex_layer_def wf_tensor_def)

lemma ex_valid: "valid_shapes ex_layer ex_feats ex_adj 1 2 1 1"
  using ex_layer_ok by (simp add: valid_shapes_def ex_layer_def ex_feats_def ex_adj_def wf_tensor_def)

lemma ex_binary: "binary ex_adj"
  by (simp add: binary_def ex_adj_def)

lemma all_less_1: "(\<forall>b<(1::nat). P b) \<longleftrightarrow> P 0"
  by simp

lemma all_less_2: "(\<forall>i<(2::nat). P i) \<longleftrightarrow> P 0 \<and> P 1"
  by (auto simp: less_Suc_eq numeral_2_eq_2)

lemma ex_less_2: "(\<exists>i<(2::nat). P i) \<longleftrightarrow> P 0 \<or> P 1"
  by (auto simp: less_Suc_eq numeral_2_eq_2)

lemma ex_rows: "\<forall>b<1. \<forall>i<2. \<exists>j<2. at3 ex_adj b i j = 1"
  by (simp add: all_less_2 ex_less_2 at3_def ex_adj_def)

subsection \<open>Attention probabilities are normalised over the source axis\<close>

text \<open>
  C1. For a node feature batch \<open>[B, N, cin]\<close> and a 0/1 adjacency batch \<open>[B, N, N]\<close> in which
  every destination row holds at least one 1, \<^verbatim>\<open>attn_probs\<close> is computed, has shape
  \<open>[B, N, N, H]\<close>, and for every batch index, destination node and head its entries sum to 1
  over the source nodes. Entries are real numbers here, so the sum is exactly 1.
\<close>

theorem attn_probs_sum_to_one:
  assumes "valid_shapes L node_feats adj B N cin c" and "binary adj"
    and "\<forall>b<B. \<forall>i<N. \<exists>j<N. at3 adj b i j = 1"
  shows "\<exists>pr. attn_probs L node_feats adj = Inr pr \<and> shape pr = [B, N, N, num_heads L] \<and>
           (\<forall>b<B. \<forall>i<N. \<forall>h<num_heads L. (\<Sum>j\<leftarrow>[0..<N]. at4 pr b i j h) = 1)"
proof -
  from stages_binary[OF assms(1,2)] obtain am where
    am: "attn_probs L node_feats adj = Inr (softmax_dim2 am)" "shape am = [B, N, N, num_heads L]"
    by blast
  have N: "0 < N" using assms(1) by (simp add: valid_shapes_def)
  have "(\<Sum>j\<leftarrow>[0..<N]. at4 (softmax_dim2 am) b i j h) = 1"
    if "b < B" "i < N" "h < num_heads L" for b i h
    using am(2) that N by (rule softmax_dim2_row_sum)
  moreover have "shape (softmax_dim2 am) = [B, N, N, num_heads L]"
    by (simp add: softmax_dim2_def Let_def am(2))
  ultimately show ?thesis using am(1) by simp
qed

theorem attn_probs_sum_to_one_witness:
  "valid_shapes ex_layer ex_feats ex_adj 1 2 1 1 \<and> binary ex_adj \<and>
   at3 ex_adj 0 0 0 = 1 \<and> at3 ex_adj 0 1 0 = 1 \<and>
   (\<exists>pr. attn_probs ex_layer ex_feats ex_adj = Inr pr \<and> shape pr = [1, 2, 2, num_heads ex_layer] \<and>
      (\<forall>b<1. \<forall>i<2. \<forall>h<num_heads ex_layer. (\<Sum>j\<leftarrow>[0..<2]. at4 pr b i j h) = 1))"
proof -
  have "at3 ex_adj 0 0 0 = 1" "at3 ex_adj 0 1 0 = 1" by (simp_all add: at3_def ex_adj_def)
  then show ?thesis
    using attn_probs_sum_to_one[OF ex_valid ex_binary ex_rows] ex_valid ex_binary by blast
qed

subsection \<open>The attention logit of an edge\<close>

lemma edge_index_nth:
  assumes "shape adj = [B, N, N]" and "b < B" and "i < N" and "j < N" and "at3 adj b i j \<noteq> 0"
  shows "edge_index adj b i j < length (nonzero adj)"
    and "nonzero adj ! edge_index adj b i j = (b, i, j)"
proof -
  let ?p = "(b * N + i) * N + j"
  let ?P = "\<lambda>p. elems adj ! p \<noteq> 0"
  have lt: "?p < B * N * N" using assms(2-4) by (rule flat3_lt)
  have P: "?P ?p" using assms(5) by (simp add: at3_def assms(1))
  have ei: "edge_index adj b i j = length (filter ?P [0..<?p])"
    by (simp add: edge_index_def assms(1))
  have np: "nonzero_pos adj = filter ?P [0..<B * N * N]"
    by (simp add: nonzero_pos_def assms(1) mult.assoc)
  note f = filter_upt_nth[of ?P, OF P lt]
  show l: "edge_index adj b i j < length (nonzero adj)"
    using f(2) by (simp add: ei nonzero_def np)
  show "nonzero adj ! edge_index adj b i j = (b, i, j)"
    using l f(1) unravel3_flat[OF assms(3,4), of b]
    by (simp add: nonzero_def ei np assms(1))
qed

lemma logits_entry:
  assumes "shape adj = [B, N, N]" and "b < B" and "i < N" and "j < N" and "at3 adj b i j \<noteq> 0"
    and "h < num_heads L"
  shows "concat (map (edge_logits L nf) (nonzero adj)) ! (edge_index adj b i j * num_heads L + h)
           = edge_logits L nf (b, i, j) ! h"
proof -
  note e = edge_index_nth[OF assms(1-5)]
  have "concat (map (edge_logits L nf) (nonzero adj)) ! (edge_index adj b i j * num_heads L + h)
        = edge_logits L nf (nonzero adj ! edge_index adj b i j) ! h"
    using e(1) assms(6) by (intro concat_uniform_nth) (simp_all add: edge_logits_length)
  then show ?thesis by (simp add: e(2))
qed

text \<open>
  C2. For every adjacency entry \<open>(b, i, j)\<close> equal to 1 and every head \<open>h\<close>, the row of
  \<^verbatim>\<open>attn_logits\<close> computed for that entry belongs to the edge \<open>(b, i, j)\<close>, and its entry
  for head \<open>h\<close> is the leaky rectifier, with slope \<open>alpha\<close>, of the dot product of row \<open>h\<close> of
  \<^verbatim>\<open>a\<close> with the projected features of node \<open>i\<close> (the adjacency row index, the
  destination) followed by those of node \<open>j\<close> (the column index, the source).
\<close>

theorem logit_dest_then_source:
  assumes "valid_shapes L node_feats adj B N cin c"
    and "b < B" and "i < N" and "j < N" and "h < num_heads L" and "at3 adj b i j = 1"
  shows "\<exists>lg. logits_of L node_feats adj = Inr lg \<and>
           edge_index adj b i j < length (nonzero adj) \<and>
           nonzero adj ! edge_index adj b i j = (b, i, j) \<and>
           elems lg ! (edge_index adj b i j * num_heads L + h) = spec_logit L node_feats b i j h"
proof -
  from project_valid[OF assms(1)] obtain nf where
    nf: "project L node_feats = Inr nf" "shape nf = [B, N, num_heads L, c]" by blast
  have sh: "shape adj = [B, N, N]" "shape (a L) = [num_heads L, 2 * c]"
    using assms(1) by (simp_all add: valid_shapes_def layer_ok_def)
  have nz: "at3 adj b i j \<noteq> 0" using assms(6) by simp
  have lg: "logits_of L node_feats adj =
      Inr \<lparr>shape = [length (nonzero adj), num_heads L],
           elems = concat (map (edge_logits L nf) (nonzero adj))\<rparr>"
    by (simp add: logits_of_def nf(1) bindE_def sh(1) attn_logits_valid[OF nf(2) sh])
  show ?thesis
    using lg edge_index_nth[OF sh(1) assms(2,3,4) nz]
      logits_entry[OF sh(1) assms(2,3,4) nz assms(5), of nf]
      edge_logits_spec[OF assms(1) nf(1) assms(2-5)]
    by simp
qed

theorem logit_dest_then_source_witness:
  "valid_shapes ex_layer ex_feats ex_adj 1 2 1 1 \<and> at3 ex_adj 0 1 0 = 1 \<and>
   (\<exists>lg. logits_of ex_layer ex_feats ex_adj = Inr lg \<and>
           edge_index ex_adj 0 1 0 < length (nonzero ex_adj) \<and>
           nonzero ex_adj ! edge_index ex_adj 0 1 0 = (0, 1, 0) \<and>
           elems lg ! (edge_index ex_adj 0 1 0 * num_heads ex_layer + 1) = spec_logit ex_layer ex_feats 0 1 0 1)"
proof -
  have a: "at3 ex_adj 0 1 0 = 1" by (simp add: at3_def ex_adj_def)
  have h: "1 < num_heads ex_layer" by (simp add: ex_layer_def)
  show ?thesis
    using logit_dest_then_source[OF ex_valid _ _ _ h a] ex_valid a by simp
qed

text \<open>On the example, destination 1 and source 0 give 26 for head 1; the other order would give 22.\<close>

lemma ex_spec_logit: "spec_logit ex_layer ex_feats 0 1 0 1 = 26"
  by (simp add: spec_logit_def projected_def a_row_def dot_def head_width_def ex_layer_def ex_feats_def
    at3_def leakyrelu_def)

subsection \<open>The dense attention tensor and the weight of non-edges\<close>

lemma sum_list_const_real: "(\<Sum>x\<leftarrow>xs. (d::real)) = real (length xs) * d"
  by (induction xs) (simp_all add: algebra_simps)



lemma isolated_row_uniform:
  assumes "valid_shapes L x adj B N cin c" and "binary adj" and "b < B" and "i < N"
    and "\<forall>j<N. at3 adj b i j = 0"
  shows "\<exists>pr. attn_probs L x adj = Inr pr \<and> shape pr = [B, N, N, num_heads L] \<and>
           (\<forall>j<N. \<forall>h<num_heads L. at4 pr b i j h = 1 / real N)"
proof -
  let ?H = "num_heads L"
  from stages_binary[OF assms(1,2)] obtain nf am where
    am: "attn_probs L x adj = Inr (softmax_dim2 am)" "shape am = [B, N, N, ?H]"
      "\<And>b i j h. b < B \<Longrightarrow> i < N \<Longrightarrow> j < N \<Longrightarrow> h < ?H \<Longrightarrow>
         at4 am b i j h = (if at3 adj b i j = 1 then edge_logits L nf (b, i, j) ! h else sentinel)"
    by blast
  have N: "0 < N" using assms(1) by (simp add: valid_shapes_def)
  have row: "at4 am b i j h = sentinel" if "j < N" "h < ?H" for j h
    using am(3)[OF assms(3,4) that] assms(5) that(1) by simp
  have "at4 (softmax_dim2 am) b i j h = 1 / real N" if "j < N" "h < ?H" for j h
  proof -
    have "(\<Sum>k\<leftarrow>[0..<N]. exp (at4 am b i k h)) = (\<Sum>k\<leftarrow>[0..<N]. exp sentinel)"
      by (rule sum_list_upt_cong) (simp add: row that(2))
    also have "\<dots> = real N * exp sentinel" by (simp add: sum_list_const_real)
    finally have S: "(\<Sum>k\<leftarrow>[0..<N]. exp (at4 am b i k h)) = real N * exp sentinel" .
    show ?thesis
      using N by (simp add: softmax_dim2_entry[OF am(2) assms(3,4) that] S row[OF that])
  qed
  moreover have "shape (softmax_dim2 am) = [B, N, N, ?H]"
    by (simp add: softmax_dim2_def Let_def am(2))
  ultimately show ?thesis using am(1) by simp
qed

lemma ex_isolated_valid: "valid_shapes ex_layer ex_feats ex_adj_isolated 1 2 1 1"
  using ex_layer_ok
  by (simp add: valid_shapes_def ex_layer_def ex_feats_def ex_adj_isolated_def wf_tensor_def)

lemma ex_isolated_binary: "binary ex_adj_isolated"
  by (simp add: binary_def ex_adj_isolated_def)

lemma ex_isolated_row: "\<forall>j<2. at3 ex_adj_isolated 0 0 j = 0"
  by (simp add: all_less_2 at3_def ex_adj_isolated_def)





subsection \<open>Aggregation and the combination of heads\<close>

lemma flat4_unravel:
  assumes "i < N" and "h < H" and "k < (c::nat)"
  shows "(((b * N + i) * H + h) * c + k) mod c = k"
    and "((((b * N + i) * H + h) * c + k) div c) mod H = h"
    and "((((b * N + i) * H + h) * c + k) div (c * H)) mod N = i"
    and "(((b * N + i) * H + h) * c + k) div (c * H * N) = b"
proof -
  let ?p = "((b * N + i) * H + h) * c + k"
  show "?p mod c = k" using assms(3) by simp
  have d1: "?p div c = (b * N + i) * H + h" using assms(3) by simp
  show "(?p div c) mod H = h" unfolding d1 using assms(2) by simp
  have d2: "?p div (c * H) = b * N + i"
    using assms(2) by (simp add: div_mult2_eq d1)
  show "(?p div (c * H)) mod N = i" unfolding d2 using assms(1) by simp
  show "?p div (c * H * N) = b"
    using assms(1) by (simp add: div_mult2_eq[of ?p "c * H" N] d2)
qed

lemma bidx_less: "x < n \<Longrightarrow> bidx n x = x"
  by (auto simp: bidx_def)

lemma bsize_same: "bsize n n = n"
  by (simp add: bsize_def)

lemma aggregate_valid:
  assumes "shape pr = [B, N, N, H]" and "shape nf = [B, N, H, c]"
  shows "\<exists>ag. aggregate pr nf = Inr ag \<and> shape ag = [B, N, H, c] \<and>
           length (elems ag) = B * N * H * c \<and>
           (\<forall>b<B. \<forall>i<N. \<forall>h<H. \<forall>k<c.
              at4 ag b i h k = (\<Sum>j\<leftarrow>[0..<N]. at4 pr b i j h * at4 nf b j h k))"
proof -
  define F where "F = (\<lambda>p.
                    let k = p mod c; h = (p div c) mod H; i = (p div (c * H)) mod N;
                        b = p div (c * H * N) in
                    \<Sum>j\<leftarrow>[0..<N].
                      elems pr ! ((((bidx B b) * N + i) * N + bidx N j) * H + h) *
                      elems nf ! ((((bidx B b) * N + bidx N j) * H + h) * c + k))"
  define ag where "ag = \<lparr>shape = [B, N, H, c], elems = map F [0..<B * N * H * c]\<rparr>"
  have a: "aggregate pr nf = Inr ag"
    by (simp add: aggregate_def assms Let_def bcompat_def bsize_same ag_def F_def)
  have ent: "at4 ag b i h k = (\<Sum>j\<leftarrow>[0..<N]. at4 pr b i j h * at4 nf b j h k)"
    if "b < B" "i < N" "h < H" "k < c" for b i h k
  proof -
    let ?p = "((b * N + i) * H + h) * c + k"
    have lt: "?p < B * N * H * c" using that by (rule flat4_lt)
    note u = flat4_unravel[OF that(2,3,4), of b]
    have "at4 ag b i h k = F ?p" using lt by (simp add: at4_def ag_def)
    also have "\<dots> = (\<Sum>j\<leftarrow>[0..<N].
                      elems pr ! ((((bidx B b) * N + i) * N + bidx N j) * H + h) *
                      elems nf ! ((((bidx B b) * N + bidx N j) * H + h) * c + k))"
      by (simp only: F_def Let_def u)
    also have "\<dots> = (\<Sum>j\<leftarrow>[0..<N]. at4 pr b i j h * at4 nf b j h k)"
      by (rule sum_list_upt_cong) (simp add: bidx_less that(1) at4_def assms)
    finally show ?thesis .
  qed
  show ?thesis using a ent by (auto simp: ag_def)
qed

lemma mean_dim2_entry:
  assumes "shape t = [B, N, H, c]" and "b < B" and "i < N" and "k < c"
  shows "at3 (mean_dim2 t) b i k = (\<Sum>h\<leftarrow>[0..<H]. at4 t b i h k) / real H"
proof -
  let ?p = "(b * N + i) * c + k"
  have lt: "?p < B * N * c" using assms(2-4) by (rule flat3_lt)
  have "at3 (mean_dim2 t) b i k = elems (mean_dim2 t) ! ?p"
    by (simp add: at3_def mean_dim2_def assms(1) Let_def)
  also have "\<dots> = (\<Sum>h\<leftarrow>[0..<H]. elems t ! (((?p div c) * H + h) * c + ?p mod c)) / real H"
    using lt by (simp add: mean_dim2_def assms(1) Let_def)
  finally show ?thesis using assms(4) by (simp add: at4_def assms(1))
qed

lemma mean_dim2_shape:
  assumes "shape t = [B, N, H, c]"
  shows "shape (mean_dim2 t) = [B, N, c]" and "wf_tensor (mean_dim2 t)"
  by (simp_all add: mean_dim2_def assms Let_def wf_tensor_def)

lemma reshape3_concat:
  assumes "shape t = [B, N, H, c]" and "0 < B" and "0 < N"
  shows "reshape3 t B N = Inr \<lparr>shape = [B, N, H * c], elems = elems t\<rparr>"
proof -
  have "prod_list (shape t) = B * N * (H * c)" by (simp add: assms(1) mult.assoc)
  then show ?thesis using assms(2,3) by (simp add: reshape3_def)
qed

lemma forward_valid:
  assumes "valid_shapes L x adj B N cin c" and "binary adj"
  shows "\<exists>nf pr ag out. project L x = Inr nf \<and> attn_probs L x adj = Inr pr \<and>
           shape pr = [B, N, N, num_heads L] \<and>
           (\<forall>b<B. \<forall>i<N. \<forall>h<num_heads L. (\<Sum>j\<leftarrow>[0..<N]. at4 pr b i j h) = 1) \<and>
           head_outputs L x adj = Inr ag \<and> shape ag = [B, N, num_heads L, c] \<and>
           (\<forall>b<B. \<forall>i<N. \<forall>h<num_heads L. \<forall>k<c.
              at4 ag b i h k = (\<Sum>j\<leftarrow>[0..<N]. at4 pr b i j h * projected L x b j h ! k)) \<and>
           forward L x adj dbg = (if dbg then [permute_0312 pr] else [], Inr out) \<and>
           shape out = [B, N, if concat_heads L then num_heads L * c else c] \<and> wf_tensor out \<and>
           (concat_heads L \<longrightarrow>
              (\<forall>b<B. \<forall>i<N. \<forall>h<num_heads L. \<forall>k<c. at3 out b i (h * c + k) = at4 ag b i h k)) \<and>
           (\<not> concat_heads L \<longrightarrow>
              (\<forall>b<B. \<forall>i<N. \<forall>k<c.
                 at3 out b i k = (\<Sum>h\<leftarrow>[0..<num_heads L]. at4 ag b i h k) / real (num_heads L)))"
proof -
  let ?H = "num_heads L"
  have pos: "0 < B" "0 < N" using assms(1) by (simp_all add: valid_shapes_def)
  have sh: "shape adj = [B, N, N]" using assms(1) by (simp add: valid_shapes_def)
  from stages_binary[OF assms] obtain nf am where
    s: "project L x = Inr nf" "shape nf = [B, N, ?H, c]"
       "attn_probs L x adj = Inr (softmax_dim2 am)" "shape am = [B, N, N, ?H]"
    by blast
  let ?pr = "softmax_dim2 am"
  have psh: "shape ?pr = [B, N, N, ?H]" by (simp add: softmax_dim2_def Let_def s(4))
  have rs: "(\<Sum>j\<leftarrow>[0..<N]. at4 ?pr b i j h) = 1" if "b < B" "i < N" "h < ?H" for b i h
    using s(4) that pos(2) by (rule softmax_dim2_row_sum)
  from aggregate_valid[OF psh s(2)] obtain ag where
    ag: "aggregate ?pr nf = Inr ag" "shape ag = [B, N, ?H, c]" "length (elems ag) = B * N * ?H * c"
      "\<And>b i h k. b < B \<Longrightarrow> i < N \<Longrightarrow> h < ?H \<Longrightarrow> k < c \<Longrightarrow>
         at4 ag b i h k = (\<Sum>j\<leftarrow>[0..<N]. at4 ?pr b i j h * at4 nf b j h k)"
    by blast
  have att: "attention L nf adj = Inr ?pr"
    using s(1,3) by (simp add: attn_probs_def bindE_def)
  have ho: "head_outputs L x adj = Inr ag"
    by (simp add: head_outputs_def s(1) bindE_def att ag(1))
  have agp: "at4 ag b i h k = (\<Sum>j\<leftarrow>[0..<N]. at4 ?pr b i j h * projected L x b j h ! k)"
    if "b < B" "i < N" "h < ?H" "k < c" for b i h k
    unfolding ag(4)[OF that]
    by (rule sum_list_upt_cong)
       (simp add: projected_nth[OF assms(1) s(1) that(1) _ that(3,4)] at4_def s(2))
  define out where "out = (if concat_heads L then \<lparr>shape = [B, N, ?H * c], elems = elems ag\<rparr>
                            else mean_dim2 ag)"
  have fw: "forward L x adj dbg = (if dbg then [permute_0312 ?pr] else [], Inr out)"
    by (simp add: forward_def s(1) att ag(1) bindE_def s(2) reshape3_concat[OF ag(2) pos] out_def)
  have osh: "shape out = [B, N, if concat_heads L then ?H * c else c]"
    by (simp add: out_def mean_dim2_shape[OF ag(2)])
  have owf: "wf_tensor out"
  proof (cases "concat_heads L")
    case True
    then show ?thesis using ag(3) by (simp add: out_def wf_tensor_def mult.assoc)
  next
    case False
    then show ?thesis using mean_dim2_shape(2)[OF ag(2)] by (simp add: out_def)
  qed
  have oc: "at3 out b i (h * c + k) = at4 ag b i h k"
    if "concat_heads L" "b < B" "i < N" "h < ?H" "k < c" for b i h k
  proof -
    have idx: "(b * N + i) * (?H * c) + (h * c + k) = ((b * N + i) * ?H + h) * c + k"
      by (simp add: algebra_simps)
    have "at3 out b i (h * c + k) = elems ag ! ((b * N + i) * (?H * c) + (h * c + k))"
      using that(1) by (simp add: out_def at3_def)
    also have "\<dots> = elems ag ! (((b * N + i) * ?H + h) * c + k)" by (simp only: idx)
    also have "\<dots> = at4 ag b i h k" by (simp add: at4_def ag(2))
    finally show ?thesis .
  qed
  have om: "at3 out b i k = (\<Sum>h\<leftarrow>[0..<?H]. at4 ag b i h k) / real ?H"
    if "\<not> concat_heads L" "b < B" "i < N" "k < c" for b i k
    using that(1) mean_dim2_entry[OF ag(2) that(2-4)] by (simp add: out_def)
  show ?thesis
    using s(1,3) psh rs ho ag(2) agp fw osh owf oc om by blast
qed

subsection \<open>The output of forward\<close>

lemma init_layer_ok:
  assumes "init c_in c_out n_heads concat_hs slope gw ga = Inr L"
    and "0 < c_in" and "0 < c_out" and "0 < n_heads"
  shows "layer_ok L (nat c_in) (head_width L)" and "0 < num_heads L"
    and "concat_heads L = concat_hs"
    and "(if concat_hs then num_heads L * head_width L else head_width L) = nat c_out"
proof -
  define c where "c = (if concat_hs then c_out div n_heads else c_out)"
  have dv: "concat_hs \<longrightarrow> n_heads \<noteq> 0 \<and> c_out mod n_heads = 0"
    using assms(1,4) by (auto simp: init_def split: if_splits)
  have cpos: "0 < c" using dv assms(3,4) div_pos_of_dvd[of c_out n_heads] by (auto simp: c_def)
  from init_success[OF assms(2) cpos assms(4) dv c_def, of slope gw ga] assms(1)
  have L: "head_width L = nat c" "num_heads L = nat n_heads" "concat_heads L = concat_hs"
    "layer_ok L (nat c_in) (nat c)" by auto
  show "layer_ok L (nat c_in) (head_width L)" using L by simp
  show "0 < num_heads L" using L assms(4) by simp
  show "concat_heads L = concat_hs" using L by simp
  have "concat_hs \<Longrightarrow> nat n_heads * nat (c_out div n_heads) = nat c_out"
  proof -
    assume "concat_hs"
    then have "n_heads * (c_out div n_heads) = c_out" using dv by auto
    then show ?thesis using assms(4) cpos
      by (metis nat_mult_distrib less_imp_le)
  qed
  then show "(if concat_hs then num_heads L * head_width L else head_width L) = nat c_out"
    using L by (simp add: c_def)
qed

text \<open>
  C5. For a layer built by the constructor from positive \<open>c_in\<close>, \<open>c_out\<close> and
  \<open>num_heads\<close>, with any values in its parameters, a node feature batch of shape
  \<open>[B, N, c_in]\<close> and a 0/1 adjacency batch of shape \<open>[B, N, N]\<close> (\<open>B\<close> and \<open>N\<close> at least 1),
  \<^verbatim>\<open>forward\<close> returns a tensor of shape \<open>[B, N, c_out]\<close>, whether heads are concatenated
  or averaged. When concatenating, head \<open>h\<close> occupies the entries \<open>h * c ..< h * c + c\<close> of each
  node's output, \<open>c\<close> being the per-head width; when averaging, each entry is the mean over
  the heads.
\<close>

theorem forward_output_shape:
  assumes "init c_in c_out n_heads concat_hs slope gw ga = Inr L"
    and "0 < c_in" and "0 < c_out" and "0 < n_heads"
    and "0 < B" and "0 < N"
    and "shape node_feats = [B, N, nat c_in]" and "wf_tensor node_feats"
    and "shape adj = [B, N, N]" and "wf_tensor adj" and "binary adj"
  shows "\<exists>out ag. snd (forward L node_feats adj dbg) = Inr out \<and>
           shape out = [B, N, nat c_out] \<and> wf_tensor out \<and>
           head_outputs L node_feats adj = Inr ag \<and>
           shape ag = [B, N, num_heads L, head_width L] \<and>
           (concat_hs \<longrightarrow>
              (\<forall>b<B. \<forall>i<N. \<forall>h<num_heads L. \<forall>k<head_width L.
                 at3 out b i (h * head_width L + k) = at4 ag b i h k)) \<and>
           (\<not> concat_hs \<longrightarrow>
              (\<forall>b<B. \<forall>i<N. \<forall>k<head_width L.
                 at3 out b i k = (\<Sum>h\<leftarrow>[0..<num_heads L]. at4 ag b i h k) / real (num_heads L)))"
proof -
  note L = init_layer_ok[OF assms(1-4)]
  have v: "valid_shapes L node_feats adj B N (nat c_in) (head_width L)"
    using L(1,2) assms(5-10) by (simp add: valid_shapes_def)
  from forward_valid[OF v assms(11), of dbg] obtain pr ag out where
    f: "head_outputs L node_feats adj = Inr ag" "shape ag = [B, N, num_heads L, head_width L]"
       "forward L node_feats adj dbg = (if dbg then [permute_0312 pr] else [], Inr out)"
       "shape out = [B, N, if concat_heads L then num_heads L * head_width L else head_width L]"
       "wf_tensor out"
       "concat_heads L \<longrightarrow>
          (\<forall>b<B. \<forall>i<N. \<forall>h<num_heads L. \<forall>k<head_width L.
              at3 out b i (h * head_width L + k) = at4 ag b i h k)"
       "\<not> concat_heads L \<longrightarrow>
          (\<forall>b<B. \<forall>i<N. \<forall>k<head_width L.
              at3 out b i k = (\<Sum>h\<leftarrow>[0..<num_heads L]. at4 ag b i h k) / real (num_heads L))"
    by (elim exE conjE)
  have "shape out = [B, N, nat c_out]" using f(4) L(3,4) by simp
  moreover have "snd (forward L node_feats adj dbg) = Inr out" by (simp add: f(3))
  ultimately show ?thesis using f(1,2,5,6,7) L(3)
    by (intro exI[of _ out] exI[of _ ag]) simp
qed

lemma ex_layer_init:
  "init 1 2 2 True (1 / 5) (\<lambda>n. [1, 2] ! n) (\<lambda>n. [1, - 1, 2, 1] ! n) = Inr ex_layer"
  by (simp add: init_def ex_layer_def upt_conv_Cons numeral_nat)

theorem forward_output_shape_witness:
  "init 1 2 2 True (1 / 5) (\<lambda>n. [1, 2] ! n) (\<lambda>n. [1, - 1, 2, 1] ! n) = Inr ex_layer \<and>
   shape ex_feats = [1, 2, nat 1] \<and> wf_tensor ex_feats \<and>
   shape ex_adj = [1, 2, 2] \<and> wf_tensor ex_adj \<and> binary ex_adj \<and>
   (\<exists>out. snd (forward ex_layer ex_feats ex_adj False) = Inr out \<and> shape out = [1, 2, nat 2])"
proof -
  have s: "shape ex_feats = [1, 2, nat 1]" "wf_tensor ex_feats" "shape ex_adj = [1, 2, 2]"
    "wf_tensor ex_adj"
    by (simp_all add: ex_feats_def ex_adj_def wf_tensor_def)
  have p: "(0::int) < 1" "(0::int) < 2" "(0::nat) < 1" "(0::nat) < 2" by simp_all
  from forward_output_shape[OF ex_layer_init p(1) p(2) p(2) p(3) p(4) s ex_binary, of False]
  obtain out where "snd (forward ex_layer ex_feats ex_adj False) = Inr out" "shape out = [1, 2, nat 2]"
    by (elim exE conjE)
  then have "\<exists>out. snd (forward ex_layer ex_feats ex_adj False) = Inr out \<and> shape out = [1, 2, nat 2]"
    by (intro exI conjI)
  then show ?thesis using ex_layer_init s ex_binary by (intro conjI)
qed

subsection \<open>A single node with its self-loop\<close>

lemma sum_list_upt_one: "(\<Sum>j\<leftarrow>[0..<1]. f j) = (f 0 :: real)"
  by simp

text \<open>
  C7. For graphs of a single node whose adjacency batch holds only the self-loop, the
  attention probability of the self-loop is 1 for every head, and \<^verbatim>\<open>forward\<close> returns the
  node's own projected features: head after head when concatenating, their mean over the heads
  otherwise.
\<close>

theorem single_node_self_loop:
  assumes "valid_shapes L node_feats adj B 1 cin c" and "elems adj = replicate B 1"
  shows "\<exists>pr out. attn_probs L node_feats adj = Inr pr \<and>
           (\<forall>b<B. \<forall>h<num_heads L. at4 pr b 0 0 h = 1) \<and>
           snd (forward L node_feats adj dbg) = Inr out \<and>
           (concat_heads L \<longrightarrow>
              (\<forall>b<B. \<forall>h<num_heads L. \<forall>k<c.
                 at3 out b 0 (h * c + k) = projected L node_feats b 0 h ! k)) \<and>
           (\<not> concat_heads L \<longrightarrow>
              (\<forall>b<B. \<forall>k<c.
                 at3 out b 0 k =
                   (\<Sum>h\<leftarrow>[0..<num_heads L]. projected L node_feats b 0 h ! k) / real (num_heads L)))"
proof -
  let ?H = "num_heads L"
  have bin: "binary adj" by (simp add: binary_def assms(2) list_all_iff)
  from forward_valid[OF assms(1) bin, of dbg] obtain pr ag out where
    f: "attn_probs L node_feats adj = Inr pr"
       "\<forall>b<B. \<forall>i<1. \<forall>h<?H. (\<Sum>j\<leftarrow>[0..<1]. at4 pr b i j h) = 1"
       "\<forall>b<B. \<forall>i<1. \<forall>h<?H. \<forall>k<c.
          at4 ag b i h k = (\<Sum>j\<leftarrow>[0..<1]. at4 pr b i j h * projected L node_feats b j h ! k)"
       "forward L node_feats adj dbg = (if dbg then [permute_0312 pr] else [], Inr out)"
       "concat_heads L \<longrightarrow> (\<forall>b<B. \<forall>i<1. \<forall>h<?H. \<forall>k<c. at3 out b i (h * c + k) = at4 ag b i h k)"
       "\<not> concat_heads L \<longrightarrow> (\<forall>b<B. \<forall>i<1. \<forall>k<c.
            at3 out b i k = (\<Sum>h\<leftarrow>[0..<?H]. at4 ag b i h k) / real ?H)"
    by (elim exE conjE)
  have one: "at4 pr b 0 0 h = 1" if "b < B" "h < ?H" for b h
    using f(2) that by simp
  have ag: "at4 ag b 0 h k = projected L node_feats b 0 h ! k" if "b < B" "h < ?H" "k < c" for b h k
    using f(3) that one[OF that(1,2)] by simp
  have oc: "at3 out b 0 (h * c + k) = projected L node_feats b 0 h ! k"
    if "concat_heads L" "b < B" "h < ?H" "k < c" for b h k
    using f(5) that ag[OF that(2-4)] by simp
  have om: "at3 out b 0 k = (\<Sum>h\<leftarrow>[0..<?H]. projected L node_feats b 0 h ! k) / real ?H"
    if "\<not> concat_heads L" "b < B" "k < c" for b k
  proof -
    have "(\<Sum>h\<leftarrow>[0..<?H]. at4 ag b 0 h k) = (\<Sum>h\<leftarrow>[0..<?H]. projected L node_feats b 0 h ! k)"
      by (rule sum_list_upt_cong) (simp add: ag that(2,3))
    then show ?thesis using f(6) that by simp
  qed
  have "snd (forward L node_feats adj dbg) = Inr out" by (simp add: f(4))
  then show ?thesis using f(1) one oc om by (intro exI[of _ pr] exI[of _ out]) simp
qed

lemma ex1_valid: "valid_shapes ex_layer1 ex_feats1 ex_adj1 1 1 1 1"
  by (simp add: valid_shapes_def layer_ok_def ex_layer1_def ex_feats1_def ex_adj1_def wf_tensor_def)

theorem single_node_self_loop_witness:
  "valid_shapes ex_layer1 ex_feats1 ex_adj1 1 1 1 1 \<and> elems ex_adj1 = replicate 1 1 \<and>
   (\<exists>pr out. attn_probs ex_layer1 ex_feats1 ex_adj1 = Inr pr \<and> at4 pr 0 0 0 0 = 1 \<and>
       snd (forward ex_layer1 ex_feats1 ex_adj1 False) = Inr out \<and>
       at3 out 0 0 0 = (\<Sum>h\<leftarrow>[0..<num_heads ex_layer1]. projected ex_layer1 ex_feats1 0 0 h ! 0)
                          / real (num_heads ex_layer1))"
proof -
  have e: "elems ex_adj1 = replicate 1 1" by (simp add: ex_adj1_def)
  have h: "\<not> concat_heads ex_layer1" "0 < num_heads ex_layer1" "(0::nat) < 1"
    by (simp_all add: ex_layer1_def)
  from single_node_self_loop[OF ex1_valid e, of False]
  obtain pr out where "attn_probs ex_layer1 ex_feats1 ex_adj1 = Inr pr"
    "\<forall>b<1. \<forall>h<num_heads ex_layer1. at4 pr b 0 0 h = 1"
    "snd (forward ex_layer1 ex_feats1 ex_adj1 False) = Inr out"
    "\<not> concat_heads ex_layer1 \<longrightarrow>
       (\<forall>b<1. \<forall>k<1. at3 out b 0 k =
          (\<Sum>h\<leftarrow>[0..<num_heads ex_layer1]. projected ex_layer1 ex_feats1 b 0 h ! k)
             / real (num_heads ex_layer1))"
    by (elim exE conjE)
  then have "\<exists>pr out. attn_probs ex_layer1 ex_feats1 ex_adj1 = Inr pr \<and> at4 pr 0 0 0 0 = 1 \<and>
       snd (forward ex_layer1 ex_feats1 ex_adj1 False) = Inr out \<and>
       at3 out 0 0 0 = (\<Sum>h\<leftarrow>[0..<num_heads ex_layer1]. projected ex_layer1 ex_feats1 0 0 h ! 0)
                          / real (num_heads ex_layer1)"
    using h by (intro exI[of _ pr] exI[of _ out]) simp
  then show ?thesis using ex1_valid e by (intro conjI)
qed

lemma ex1_projected: "projected ex_layer1 ex_feats1 0 0 0 = [6]"
  by (simp add: projected_def head_width_def ex_layer1_def ex_feats1_def at3_def)

subsection \<open>A destination without any neighbour\<close>

lemma sum_list_scale_div: "(\<Sum>x\<leftarrow>xs. 1 / d * f x) = (\<Sum>x\<leftarrow>xs. f x) / (d::real)"
  by (induction xs) (simp_all add: add_divide_distrib)

lemma isolated_row_output:
  assumes "valid_shapes L node_feats adj B N cin c" and "binary adj" and "b < B" and "i < N"
    and "\<forall>j<N. at3 adj b i j = 0"
  shows "\<exists>pr ag out. attn_probs L node_feats adj = Inr pr \<and>
           (\<forall>j<N. \<forall>h<num_heads L. at4 pr b i j h = 1 / real N) \<and>
           head_outputs L node_feats adj = Inr ag \<and>
           (\<forall>h<num_heads L. \<forall>k<c.
              at4 ag b i h k = (\<Sum>j\<leftarrow>[0..<N]. projected L node_feats b j h ! k) / real N) \<and>
           snd (forward L node_feats adj dbg) = Inr out \<and>
           (concat_heads L \<longrightarrow>
              (\<forall>h<num_heads L. \<forall>k<c.
                 at3 out b i (h * c + k) = (\<Sum>j\<leftarrow>[0..<N]. projected L node_feats b j h ! k) / real N)) \<and>
           (\<not> concat_heads L \<longrightarrow>
              (\<forall>k<c. at3 out b i k =
                 (\<Sum>h\<leftarrow>[0..<num_heads L].
                    (\<Sum>j\<leftarrow>[0..<N]. projected L node_feats b j h ! k) / real N) / real (num_heads L)))"
proof -
  let ?H = "num_heads L"
  let ?m = "\<lambda>h k. (\<Sum>j\<leftarrow>[0..<N]. projected L node_feats b j h ! k) / real N"
  from forward_valid[OF assms(1,2), of dbg] obtain pr ag out where
    f: "attn_probs L node_feats adj = Inr pr"
       "head_outputs L node_feats adj = Inr ag"
       "\<forall>b<B. \<forall>i<N. \<forall>h<?H. \<forall>k<c.
          at4 ag b i h k = (\<Sum>j\<leftarrow>[0..<N]. at4 pr b i j h * projected L node_feats b j h ! k)"
       "forward L node_feats adj dbg = (if dbg then [permute_0312 pr] else [], Inr out)"
       "concat_heads L \<longrightarrow> (\<forall>b<B. \<forall>i<N. \<forall>h<?H. \<forall>k<c. at3 out b i (h * c + k) = at4 ag b i h k)"
       "\<not> concat_heads L \<longrightarrow> (\<forall>b<B. \<forall>i<N. \<forall>k<c.
            at3 out b i k = (\<Sum>h\<leftarrow>[0..<?H]. at4 ag b i h k) / real ?H)"
    by (elim exE conjE)
  from isolated_row_uniform[OF assms] obtain pr' where
    u: "attn_probs L node_feats adj = Inr pr'" "\<forall>j<N. \<forall>h<?H. at4 pr' b i j h = 1 / real N"
    by (elim exE conjE)
  have eq: "pr' = pr" using f(1) u(1) by simp
  have un: "at4 pr b i j h = 1 / real N" if "j < N" "h < ?H" for j h
    using u(2) that by (simp add: eq)
  have ag: "at4 ag b i h k = ?m h k" if "h < ?H" "k < c" for h k
  proof -
    have "at4 ag b i h k = (\<Sum>j\<leftarrow>[0..<N]. at4 pr b i j h * projected L node_feats b j h ! k)"
      using f(3) assms(3,4) that by simp
    also have "\<dots> = (\<Sum>j\<leftarrow>[0..<N]. 1 / real N * projected L node_feats b j h ! k)"
      by (rule sum_list_upt_cong) (simp add: un that(1))
    also have "\<dots> = ?m h k" by (rule sum_list_scale_div)
    finally show ?thesis .
  qed
  have oc: "at3 out b i (h * c + k) = ?m h k" if "concat_heads L" "h < ?H" "k < c" for h k
    using f(5) that assms(3,4) ag[OF that(2,3)] by simp
  have om: "at3 out b i k = (\<Sum>h\<leftarrow>[0..<?H]. ?m h k) / real ?H" if "\<not> concat_heads L" "k < c" for k
  proof -
    have "(\<Sum>h\<leftarrow>[0..<?H]. at4 ag b i h k) = (\<Sum>h\<leftarrow>[0..<?H]. ?m h k)"
      by (rule sum_list_upt_cong) (simp add: ag that(2))
    then show ?thesis using f(6) that assms(3,4) by simp
  qed
  have "snd (forward L node_feats adj dbg) = Inr out" by (simp add: f(4))
  then show ?thesis using f(1,2) un ag oc om
    by (intro exI[of _ pr] exI[of _ ag] exI[of _ out]) simp
qed

lemma ex_cancel_valid: "valid_shapes ex_layer ex_feats_cancel ex_adj_isolated 1 2 1 1"
  using ex_layer_ok
  by (simp add: valid_shapes_def ex_layer_def ex_feats_cancel_def ex_adj_isolated_def wf_tensor_def)

lemma ex_cancel_projected:
  "projected ex_layer ex_feats_cancel 0 0 0 = [3]"
  "projected ex_layer ex_feats_cancel 0 (Suc 0) 0 = [- 3]"
  "projected ex_layer ex_feats_cancel 0 0 (Suc 0) = [6]"
  "projected ex_layer ex_feats_cancel 0 (Suc 0) (Suc 0) = [- 6]"
  by (simp_all add: projected_def head_width_def ex_layer_def ex_feats_cancel_def at3_def)

text \<open>
  C10, as stated, fails in its middle part: the output of a node without neighbours can be
  zero. On the example with node features 3 and -3, node 0 has an all-zero adjacency row, its
  own projected features are 3 and 6 for the two heads, those of node 1 are -3 and -6, and
  both entries of the output of node 0 are 0.
\<close>

theorem isolated_node_zero_output_counterexample:
  "valid_shapes ex_layer ex_feats_cancel ex_adj_isolated 1 2 1 1 \<and> binary ex_adj_isolated \<and>
   at3 ex_adj_isolated 0 0 0 = 0 \<and> at3 ex_adj_isolated 0 0 1 = 0 \<and>
   projected ex_layer ex_feats_cancel 0 0 0 = [3] \<and>
   (\<exists>out. snd (forward ex_layer ex_feats_cancel ex_adj_isolated False) = Inr out \<and>
       at3 out 0 0 0 = 0 \<and> at3 out 0 0 1 = 0)"
proof -
  have z: "at3 ex_adj_isolated 0 0 0 = 0" "at3 ex_adj_isolated 0 0 1 = 0"
    by (simp_all add: at3_def ex_adj_isolated_def)
  have h: "concat_heads ex_layer" "0 < num_heads ex_layer" "1 < num_heads ex_layer"
    "(0::nat) < 1" "(0::nat) < 2"
    by (simp_all add: ex_layer_def)
  from isolated_row_output[OF ex_cancel_valid ex_isolated_binary h(4) h(5) ex_isolated_row, of False]
  obtain out where o: "snd (forward ex_layer ex_feats_cancel ex_adj_isolated False) = Inr out"
    "concat_heads ex_layer \<longrightarrow>
       (\<forall>h<num_heads ex_layer. \<forall>k<1.
          at3 out 0 0 (h * 1 + k) =
            (\<Sum>j\<leftarrow>[0..<2]. projected ex_layer ex_feats_cancel 0 j h ! k) / real 2)"
    by (elim exE conjE)
  have "at3 out 0 0 (0 * 1 + 0) =
      (\<Sum>j\<leftarrow>[0..<2]. projected ex_layer ex_feats_cancel 0 j 0 ! 0) / real 2"
    using o(2) h(1,2) by simp
  then have v0: "at3 out 0 0 0 = 0"
    by (simp add: upt_conv_Cons numeral_2_eq_2 ex_cancel_projected)
  have "at3 out 0 0 (1 * 1 + 0) =
      (\<Sum>j\<leftarrow>[0..<2]. projected ex_layer ex_feats_cancel 0 j 1 ! 0) / real 2"
    using o(2) h(1,3) by simp
  then have v1: "at3 out 0 0 1 = 0"
    by (simp add: upt_conv_Cons numeral_2_eq_2 ex_cancel_projected)
  have "\<exists>out. snd (forward ex_layer ex_feats_cancel ex_adj_isolated False) = Inr out \<and>
       at3 out 0 0 0 = 0 \<and> at3 out 0 0 1 = 0"
    using o(1) v0 v1 by (intro exI[of _ out]) simp
  then show ?thesis
    using ex_cancel_valid ex_isolated_binary z ex_cancel_projected(1) by (intro conjI)
qed

text \<open>
  C10, amended. When the adjacency row of a destination node is all zeros, \<^verbatim>\<open>forward\<close>
  still returns a tensor; the attention probabilities of that destination are \<open>1/N\<close> for
  every source node and head, so its output per head is the unweighted mean of the projected
  features of all \<open>N\<close> nodes of its graph, combined across heads as for any other node. That
  output is zero exactly when that mean is.
\<close>

theorem isolated_node_uniform_attention:
  assumes "valid_shapes L node_feats adj B N cin c" and "binary adj" and "b < B" and "i < N"
    and "\<forall>j<N. at3 adj b i j = 0"
  shows "\<exists>pr ag out. attn_probs L node_feats adj = Inr pr \<and>
           (\<forall>j<N. \<forall>h<num_heads L. at4 pr b i j h = 1 / real N) \<and>
           head_outputs L node_feats adj = Inr ag \<and>
           (\<forall>h<num_heads L. \<forall>k<c.
              at4 ag b i h k = (\<Sum>j\<leftarrow>[0..<N]. projected L node_feats b j h ! k) / real N) \<and>
           snd (forward L node_feats adj dbg) = Inr out \<and>
           (concat_heads L \<longrightarrow>
              (\<forall>h<num_heads L. \<forall>k<c.
                 at3 out b i (h * c + k) = (\<Sum>j\<leftarrow>[0..<N]. projected L node_feats b j h ! k) / real N)) \<and>
           (\<not> concat_heads L \<longrightarrow>
              (\<forall>k<c. at3 out b i k =
                 (\<Sum>h\<leftarrow>[0..<num_heads L].
                    (\<Sum>j\<leftarrow>[0..<N]. projected L node_feats b j h ! k) / real N) / real (num_heads L)))"
  using assms by (rule isolated_row_output)

lemma ex_projected_values:
  "projected ex_layer ex_feats 0 0 0 = [3]" "projected ex_layer ex_feats 0 (Suc 0) 0 = [5]"
  by (simp_all add: projected_def head_width_def ex_layer_def ex_feats_def at3_def)

theorem isolated_node_uniform_attention_witness:
  "valid_shapes ex_layer ex_feats ex_adj_isolated 1 2 1 1 \<and> binary ex_adj_isolated \<and>
   at3 ex_adj_isolated 0 0 0 = 0 \<and> at3 ex_adj_isolated 0 0 1 = 0 \<and>
   (\<exists>pr out. attn_probs ex_layer ex_feats ex_adj_isolated = Inr pr \<and>
       at4 pr 0 0 0 0 = 1 / 2 \<and> at4 pr 0 0 1 0 = 1 / 2 \<and>
       snd (forward ex_layer ex_feats ex_adj_isolated False) = Inr out \<and> at3 out 0 0 0 = 4)"
proof -
  have z: "at3 ex_adj_isolated 0 0 0 = 0" "at3 ex_adj_isolated 0 0 1 = 0"
    by (simp_all add: at3_def ex_adj_isolated_def)
  have h: "concat_heads ex_layer" "0 < num_heads ex_layer" "(0::nat) < 1" "(0::nat) < 2" "(1::nat) < 2"
    by (simp_all add: ex_layer_def)
  from isolated_node_uniform_attention[OF ex_isolated_valid ex_isolated_binary h(3) h(4) ex_isolated_row,
      of False]
  obtain pr out where o: "attn_probs ex_layer ex_feats ex_adj_isolated = Inr pr"
    "\<forall>j<2. \<forall>h<num_heads ex_layer. at4 pr 0 0 j h = 1 / real 2"
    "snd (forward ex_layer ex_feats ex_adj_isolated False) = Inr out"
    "concat_heads ex_layer \<longrightarrow>
       (\<forall>h<num_heads ex_layer. \<forall>k<1.
          at3 out 0 0 (h * 1 + k) = (\<Sum>j\<leftarrow>[0..<2]. projected ex_layer ex_feats 0 j h ! k) / real 2)"
    by (elim exE conjE)
  have "at3 out 0 0 (0 * 1 + 0) = (\<Sum>j\<leftarrow>[0..<2]. projected ex_layer ex_feats 0 j 0 ! 0) / real 2"
    using o(4) h(1,2) by simp
  then have v: "at3 out 0 0 0 = 4"
    by (simp add: upt_conv_Cons numeral_2_eq_2 ex_projected_values)
  have p: "at4 pr 0 0 0 0 = 1 / 2" "at4 pr 0 0 1 0 = 1 / 2" using o(2) h(2,4,5) by simp_all
  have "\<exists>pr out. attn_probs ex_layer ex_feats ex_adj_isolated = Inr pr \<and>
       at4 pr 0 0 0 0 = 1 / 2 \<and> at4 pr 0 0 1 0 = 1 / 2 \<and>
       snd (forward ex_layer ex_feats ex_adj_isolated False) = Inr out \<and> at3 out 0 0 0 = 4"
    using o(1,3) v p by (intro exI[of _ pr] exI[of _ out]) simp
  then show ?thesis using ex_isolated_valid ex_isolated_binary z by (intro conjI)
qed

subsection \<open>The debug flag\<close>

lemma permute_0312_entry:
  assumes "shape t = [B, N1, N2, H]" and "b < B" and "h < H" and "i < N1" and "j < N2"
  shows "at4 (permute_0312 t) b h i j = at4 t b i j h"
proof -
  let ?q = "((b * H + h) * N1 + i) * N2 + j"
  define F where "F = (\<lambda>q. elems t ! ((((q div (N2 * N1 * H)) * N1 + (q div N2) mod N1) * N2 + q mod N2) * H
                                     + (q div (N2 * N1)) mod H))"
  have lt: "?q < B * H * N1 * N2" using assms(2-5) by (rule flat4_lt)
  note u = flat4_unravel[OF assms(3,4,5), of b]
  have "at4 (permute_0312 t) b h i j = F ?q"
    using lt by (simp add: at4_def permute_0312_def assms(1) Let_def F_def)
  also have "\<dots> = elems t ! (((b * N1 + i) * N2 + j) * H + h)"
    by (simp only: F_def u)
  finally show ?thesis by (simp add: at4_def assms(1))
qed

text \<open>
  C8. For every layer and every pair of inputs, \<^verbatim>\<open>forward\<close> returns the same value, or
  raises the same failure, with the debug flag set as without it. Without the flag nothing is
  printed; with it, what is printed is the attention-probability tensor permuted by
  \<open>(0, 3, 1, 2)\<close>, once it has been computed: for probabilities of shape \<open>[B, N1, N2, H]\<close>
  a tensor of shape \<open>[B, H, N1, N2]\<close> with the same entries.
\<close>

theorem debug_flag_only_prints:
  "snd (forward L node_feats adj True) = snd (forward L node_feats adj False) \<and>
   fst (forward L node_feats adj False) = [] \<and>
   fst (forward L node_feats adj True) =
     (case attn_probs L node_feats adj of Inl e \<Rightarrow> [] | Inr pr \<Rightarrow> [permute_0312 pr]) \<and>
   (\<forall>pr B N1 N2 H. shape pr = [B, N1, N2, H] \<longrightarrow>
      shape (permute_0312 pr) = [B, H, N1, N2] \<and>
      (\<forall>b<B. \<forall>h<H. \<forall>i<N1. \<forall>j<N2. at4 (permute_0312 pr) b h i j = at4 pr b i j h))"
proof -
  have a: "snd (forward L node_feats adj True) = snd (forward L node_feats adj False)"
    by (simp add: forward_def split: sum.splits)
  have b: "fst (forward L node_feats adj False) = []"
    by (simp add: forward_def split: sum.splits)
  have c: "fst (forward L node_feats adj True) =
     (case attn_probs L node_feats adj of Inl e \<Rightarrow> [] | Inr pr \<Rightarrow> [permute_0312 pr])"
    by (simp add: forward_def attn_probs_def bindE_def split: sum.splits)
  have d: "shape (permute_0312 pr) = [B, H, N1, N2] \<and>
      (\<forall>b<B. \<forall>h<H. \<forall>i<N1. \<forall>j<N2. at4 (permute_0312 pr) b h i j = at4 pr b i j h)"
    if "shape pr = [B, N1, N2, H]" for pr B N1 N2 H
    using permute_0312_entry[OF that] by (simp add: permute_0312_def that Let_def)
  show ?thesis using a b c d by blast
qed

theorem debug_flag_only_prints_witness:
  "snd (forward ex_layer ex_feats ex_adj True) = snd (forward ex_layer ex_feats ex_adj False) \<and>
   fst (forward ex_layer ex_feats ex_adj False) = [] \<and>
   (\<exists>pr. attn_probs ex_layer ex_feats ex_adj = Inr pr \<and>
      fst (forward ex_layer ex_feats ex_adj True) = [permute_0312 pr] \<and>
      shape (permute_0312 pr) = [1, 2, 2, 2])"
proof -
  from forward_valid[OF ex_valid ex_binary, of True] obtain pr where
    p: "attn_probs ex_layer ex_feats ex_adj = Inr pr" "shape pr = [1, 2, 2, num_heads ex_layer]"
    by (elim exE conjE)
  have sh: "shape pr = [1, 2, 2, 2]" using p(2) by (simp add: ex_layer_def)
  note t = debug_flag_only_prints[of ex_layer ex_feats ex_adj]
  have "fst (forward ex_layer ex_feats ex_adj True) = [permute_0312 pr]"
    using t p(1) by simp
  moreover have "shape (permute_0312 pr) = [1, 2, 2, 2]" using t sh by blast
  ultimately have "\<exists>pr. attn_probs ex_layer ex_feats ex_adj = Inr pr \<and>
      fst (forward ex_layer ex_feats ex_adj True) = [permute_0312 pr] \<and>
      shape (permute_0312 pr) = [1, 2, 2, 2]"
    using p(1) by (intro exI[of _ pr]) simp
  then show ?thesis using t by (intro conjI) simp_all
qed

subsection \<open>Adjacency entries other than 0 and 1\<close>

lemma filter_length_le:
  "(\<And>x. x \<in> set xs \<Longrightarrow> P x \<Longrightarrow> Q x) \<Longrightarrow> length (filter P xs) \<le> length (filter Q xs)"
  by (induction xs) auto

lemma filter_length_strict:
  assumes "\<And>x. x \<in> set xs \<Longrightarrow> P x \<Longrightarrow> Q x" and "y \<in> set xs" and "Q y" and "\<not> P y"
  shows "length (filter P xs) < length (filter Q xs)"
  using assms
proof (induction xs)
  case Nil
  then show ?case by simp
next
  case (Cons x xs)
  have le: "length (filter P xs) \<le> length (filter Q xs)"
    using Cons.prems(1) by (intro filter_length_le) simp
  show ?case
  proof (cases "y = x")
    case True
    then show ?thesis using le Cons.prems(3,4) by simp
  next
    case False
    then have "length (filter P xs) < length (filter Q xs)"
      using Cons.prems by (intro Cons.IH) auto
    then show ?thesis using Cons.prems(1)[of x] by auto
  qed
qed

lemma fill_no_position:
  assumes "\<And>p. p \<in> set ps \<Longrightarrow> \<not> P p"
  shows "map (\<lambda>(m, x). if m then v else x)
           (zip (concat (map (\<lambda>p. replicate H (P p)) ps)) (replicate (length ps * H) s))
         = replicate (length ps * H) (s::real)"
proof -
  have "concat (map (\<lambda>p. replicate H (P p)) ps) = replicate (length ps * H) False"
    using assms by (induction ps) (simp_all add: replicate_add)
  then show ?thesis by (simp add: zip_replicate map_replicate_const)
qed

lemma nonbinary_stages:
  assumes "valid_shapes L x adj B N cin c"
    and "b < B" and "i < N" and "j < N" and "at3 adj b i j \<noteq> 0" and "at3 adj b i j \<noteq> 1"
  shows "\<exists>nf lg. project L x = Inr nf \<and> attn_logits L nf adj = Inr lg \<and>
           logits_of L x adj = Inr lg \<and>
           shape lg = [length (nonzero adj), num_heads L] \<and>
           (\<not> (length (nonzero adj) = 1 \<and> num_heads L = 1) \<longrightarrow> attn_matrix L adj lg = Inl TensorError) \<and>
           (length (nonzero adj) = 1 \<and> num_heads L = 1 \<longrightarrow>
              attn_matrix L adj lg = Inr \<lparr>shape = [B, N, N, 1], elems = replicate (B * N * N) sentinel\<rparr>)"
proof -
  let ?H = "num_heads L"
  let ?ps = "[0..<B * N * N]"
  let ?P1 = "\<lambda>p. elems adj ! p = 1"
  let ?P0 = "\<lambda>p. elems adj ! p \<noteq> 0"
  from project_valid[OF assms(1)] obtain nf where
    nf: "project L x = Inr nf" "shape nf = [B, N, ?H, c]" by blast
  have sh: "shape adj = [B, N, N]" "shape (a L) = [?H, 2 * c]" "0 < ?H"
    using assms(1) by (simp_all add: valid_shapes_def layer_ok_def)
  define lg where "lg = \<lparr>shape = [length (nonzero adj), ?H],
                elems = concat (map (edge_logits L nf) (nonzero adj))\<rparr>"
  have l1: "attn_logits L nf adj = Inr lg"
    unfolding lg_def by (rule attn_logits_valid[OF nf(2) sh(1,2)])
  have l2: "logits_of L x adj = Inr lg"
    by (simp add: logits_of_def nf(1) bindE_def sh(1) l1)
  have E: "length (nonzero adj) = length (filter ?P0 ?ps)"
    by (simp add: nonzero_def nonzero_pos_def sh(1) mult.assoc)
  have llen: "length (elems lg) = length (nonzero adj) * ?H"
    unfolding lg_def by (simp add: concat_uniform_length[where H="?H"] edge_logits_length)
  have msk: "adj_mask adj ?H = concat (map (\<lambda>p. replicate ?H (?P1 p)) ?ps)"
    by (simp add: adj_mask_def sh(1) mult.assoc)
  have cnt: "length (filter (\<lambda>m. m) (adj_mask adj ?H)) = length (filter ?P1 ?ps) * ?H"
    unfolding msk by (rule mask_count)
  have mem: "(b * N + i) * N + j \<in> set ?ps" using flat3_lt[OF assms(2-4)] by simp
  have K: "length (filter ?P1 ?ps) < length (filter ?P0 ?ps)"
    using mem by (rule filter_length_strict[rotated]) (use assms(5,6) in \<open>simp_all add: at3_def sh(1)\<close>)
  have ne: "length (elems lg) \<noteq> length (filter (\<lambda>m. m) (adj_mask adj ?H))"
    using K sh(3) by (simp add: llen cnt E)
  have one: "length (elems lg) = 1 \<longleftrightarrow> length (nonzero adj) = 1 \<and> ?H = 1"
    by (simp add: llen)
  have err: "attn_matrix L adj lg = Inl TensorError"
    if "\<not> (length (nonzero adj) = 1 \<and> ?H = 1)"
    using that ne one by (simp add: attn_matrix_def index_put_mask_def bindE_def)
  have fill: "attn_matrix L adj lg = Inr \<lparr>shape = [B, N, N, 1], elems = replicate (B * N * N) sentinel\<rparr>"
    if t: "length (nonzero adj) = 1 \<and> ?H = 1"
  proof -
    have "length (filter ?P1 ?ps) = 0" using K t E by simp
    then have none: "\<And>p. p \<in> set ?ps \<Longrightarrow> \<not> ?P1 p"
      by (simp add: filter_empty_conv)
    have pl: "prod_list (shape adj @ [?H]) = length ?ps * ?H" by (simp add: sh(1))
    have l1: "length (elems lg) = 1" using one t by simp
    have "index_put_mask (adj_mask adj ?H) (replicate (prod_list (shape adj @ [?H])) sentinel) (elems lg)
          = Inr (map (\<lambda>(m, x). if m then hd (elems lg) else x)
                  (zip (adj_mask adj ?H) (replicate (prod_list (shape adj @ [?H])) sentinel)))"
      using ne l1 by (simp add: index_put_mask_def)
    also have "\<dots> = Inr (replicate (length ?ps * ?H) sentinel)"
      by (simp only: msk pl fill_no_position[OF none])
    finally have "index_put_mask (adj_mask adj ?H)
        (replicate (prod_list (shape adj @ [?H])) sentinel) (elems lg)
          = Inr (replicate (length ?ps * ?H) sentinel)" .
    then show ?thesis using t by (simp add: attn_matrix_def bindE_def sh(1))
  qed
  show ?thesis using nf(1) l1 l2 err fill by (auto simp: lg_def)
qed

lemma nonbinary_forward:
  assumes "valid_shapes L x adj B N cin c"
    and "b < B" and "i < N" and "j < N" and "at3 adj b i j \<noteq> 0" and "at3 adj b i j \<noteq> 1"
  shows "\<exists>lg. logits_of L x adj = Inr lg \<and> shape lg = [length (nonzero adj), num_heads L] \<and>
           (\<not> (length (nonzero adj) = 1 \<and> num_heads L = 1) \<longrightarrow>
              matrix_of L x adj = Inl TensorError \<and> forward L x adj dbg = ([], Inl TensorError)) \<and>
           (length (nonzero adj) = 1 \<and> num_heads L = 1 \<longrightarrow>
              matrix_of L x adj = Inr \<lparr>shape = [B, N, N, 1], elems = replicate (B * N * N) sentinel\<rparr>)"
proof -
  from nonbinary_stages[OF assms] obtain nf lg where
    s: "project L x = Inr nf" "attn_logits L nf adj = Inr lg" "logits_of L x adj = Inr lg"
       "shape lg = [length (nonzero adj), num_heads L]"
       "\<not> (length (nonzero adj) = 1 \<and> num_heads L = 1) \<longrightarrow> attn_matrix L adj lg = Inl TensorError"
       "length (nonzero adj) = 1 \<and> num_heads L = 1 \<longrightarrow>
              attn_matrix L adj lg = Inr \<lparr>shape = [B, N, N, 1], elems = replicate (B * N * N) sentinel\<rparr>"
    by (elim exE conjE)
  have sh: "shape adj = [B, N, N]" using assms(1) by (simp add: valid_shapes_def)
  have e: "matrix_of L x adj = Inl TensorError \<and> forward L x adj dbg = ([], Inl TensorError)"
    if "\<not> (length (nonzero adj) = 1 \<and> num_heads L = 1)"
  proof -
    have m: "attn_matrix L adj lg = Inl TensorError" using s(5) that by simp
    have "attention L nf adj = Inl TensorError"
      by (simp add: attention_def sh s(2) m bindE_def)
    then show ?thesis by (simp add: forward_def s(1) matrix_of_def s(3) m bindE_def)
  qed
  have f: "matrix_of L x adj = Inr \<lparr>shape = [B, N, N, 1], elems = replicate (B * N * N) sentinel\<rparr>"
    if "length (nonzero adj) = 1 \<and> num_heads L = 1"
    using s(6) that by (simp add: matrix_of_def s(3) bindE_def)
  show ?thesis using s(3,4) e f by (intro exI[of _ lg]) simp
qed

lemma ex_two_valid: "valid_shapes ex_layer ex_feats ex_adj_two 1 2 1 1"
  using ex_layer_ok
  by (simp add: valid_shapes_def ex_layer_def ex_feats_def ex_adj_two_def wf_tensor_def)

lemma ex_two_entry: "at3 ex_adj_two 0 0 1 = 2"
  by (simp add: at3_def ex_adj_two_def)

lemma ex_two_nonzero: "nonzero ex_adj_two = [(0, 0, 0), (0, 0, 1), (0, 1, 1)]"
  by (simp add: nonzero_def nonzero_pos_def ex_adj_two_def unravel3_def upt_conv_Cons)

text \<open>
  C6, as stated, fails: on the example the adjacency entry with destination 0 and source 1
  is 2. A row of logits is computed for it (row 1 of the three rows of
  \<^verbatim>\<open>attn_logits\<close>), and \<^verbatim>\<open>forward\<close> does not return: the masked assignment of
  line 50 is refused.
\<close>

theorem nonbinary_not_silent_counterexample:
  "at3 ex_adj_two 0 0 1 = 2 \<and>
   forward ex_layer ex_feats ex_adj_two False = ([], Inl TensorError) \<and>
   (\<exists>lg. logits_of ex_layer ex_feats ex_adj_two = Inr lg \<and> shape lg = [3, 2]) \<and>
   nonzero ex_adj_two ! 1 = (0, 0, 1)"
proof -
  have h: "(0::nat) < 1" "(0::nat) < 2" "(1::nat) < 2" "at3 ex_adj_two 0 0 1 \<noteq> 0"
    "at3 ex_adj_two 0 0 1 \<noteq> 1"
    by (simp_all add: at3_def ex_adj_two_def)
  have n: "length (nonzero ex_adj_two) = 3" "num_heads ex_layer = 2"
    by (simp_all add: ex_two_nonzero ex_layer_def)
  from nonbinary_forward[OF ex_two_valid h(1) h(2) h(3) h(4) h(5), of False]
  obtain lg where l: "logits_of ex_layer ex_feats ex_adj_two = Inr lg"
    "shape lg = [length (nonzero ex_adj_two), num_heads ex_layer]"
    "\<not> (length (nonzero ex_adj_two) = 1 \<and> num_heads ex_layer = 1) \<longrightarrow>
       matrix_of ex_layer ex_feats ex_adj_two = Inl TensorError \<and>
       forward ex_layer ex_feats ex_adj_two False = ([], Inl TensorError)"
    by (elim exE conjE)
  have f: "forward ex_layer ex_feats ex_adj_two False = ([], Inl TensorError)"
    using l(3) n by simp
  have "\<exists>lg. logits_of ex_layer ex_feats ex_adj_two = Inr lg \<and> shape lg = [3, 2]"
    using l(1,2) n by (intro exI[of _ lg]) simp
  then show ?thesis using f ex_two_entry by (simp add: ex_two_nonzero)
qed

text \<open>
  C6, amended. When an adjacency entry \<open>(b, i, j)\<close> is neither 0 nor 1, \<^verbatim>\<open>forward\<close>
  validates nothing itself and computes a row of logits for every nonzero entry, that one
  included. The masked assignment, which selects the entries equal to 1, then has more values
  than positions: it is refused and \<^verbatim>\<open>forward\<close> fails, with and without the debug flag.
  The one exception is a layer with a single head and an adjacency batch with a single nonzero
  entry: the single logit is then assigned to no position, and every position, \<open>(b, i, j)\<close>
  included, is left at \<open>-9e15\<close>.
\<close>

theorem nonbinary_adjacency:
  assumes "valid_shapes L node_feats adj B N cin c"
    and "b < B" and "i < N" and "j < N" and "at3 adj b i j \<noteq> 0" and "at3 adj b i j \<noteq> 1"
  shows "\<exists>lg. logits_of L node_feats adj = Inr lg \<and>
           shape lg = [length (nonzero adj), num_heads L] \<and>
           edge_index adj b i j < length (nonzero adj) \<and>
           nonzero adj ! edge_index adj b i j = (b, i, j) \<and>
           (\<not> (length (nonzero adj) = 1 \<and> num_heads L = 1) \<longrightarrow>
              matrix_of L node_feats adj = Inl TensorError \<and>
              forward L node_feats adj dbg = ([], Inl TensorError)) \<and>
           (length (nonzero adj) = 1 \<and> num_heads L = 1 \<longrightarrow>
              (\<exists>am. matrix_of L node_feats adj = Inr am \<and> shape am = [B, N, N, 1] \<and>
                 elems am = replicate (B * N * N) sentinel \<and> at4 am b i j 0 = sentinel))"
proof -
  have sh: "shape adj = [B, N, N]" using assms(1) by (simp add: valid_shapes_def)
  from nonbinary_forward[OF assms, of dbg] obtain lg where
    l: "logits_of L node_feats adj = Inr lg" "shape lg = [length (nonzero adj), num_heads L]"
       "\<not> (length (nonzero adj) = 1 \<and> num_heads L = 1) \<longrightarrow>
              matrix_of L node_feats adj = Inl TensorError \<and>
              forward L node_feats adj dbg = ([], Inl TensorError)"
       "length (nonzero adj) = 1 \<and> num_heads L = 1 \<longrightarrow>
          matrix_of L node_feats adj = Inr \<lparr>shape = [B, N, N, 1], elems = replicate (B * N * N) sentinel\<rparr>"
    by (elim exE conjE)
  note e = edge_index_nth[OF sh assms(2-5)]
  have lt: "(b * N + i) * N + j < B * N * N" using assms(2-4) by (rule flat3_lt)
  have s: "\<exists>am. matrix_of L node_feats adj = Inr am \<and> shape am = [B, N, N, 1] \<and>
                 elems am = replicate (B * N * N) sentinel \<and> at4 am b i j 0 = sentinel"
    if "length (nonzero adj) = 1 \<and> num_heads L = 1"
    using l(4) that lt
    by (intro exI[of _ "\<lparr>shape = [B, N, N, 1], elems = replicate (B * N * N) sentinel\<rparr>"])
       (simp add: at4_def)
  show ?thesis using l(1,2,3) e s by (intro exI[of _ lg]) simp
qed

lemma ex_single_valid: "valid_shapes ex_layer1 ex_feats ex_adj_single 1 2 1 1"
  by (simp add: valid_shapes_def layer_ok_def ex_layer1_def ex_feats_def ex_adj_single_def wf_tensor_def)

lemma ex_single_nonzero: "nonzero ex_adj_single = [(0, 0, 0)]"
  by (simp add: nonzero_def nonzero_pos_def ex_adj_single_def unravel3_def upt_conv_Cons)

theorem nonbinary_adjacency_witness:
  "valid_shapes ex_layer ex_feats ex_adj_two 1 2 1 1 \<and> at3 ex_adj_two 0 0 1 = 2 \<and>
   matrix_of ex_layer ex_feats ex_adj_two = Inl TensorError \<and>
   forward ex_layer ex_feats ex_adj_two True = ([], Inl TensorError) \<and>
   valid_shapes ex_layer1 ex_feats ex_adj_single 1 2 1 1 \<and> at3 ex_adj_single 0 0 0 = 2 \<and>
   (\<exists>am. matrix_of ex_layer1 ex_feats ex_adj_single = Inr am \<and> at4 am 0 0 0 0 = sentinel)"
proof -
  have h: "(0::nat) < 1" "(0::nat) < 2" "(1::nat) < 2" "at3 ex_adj_two 0 0 1 \<noteq> 0"
    "at3 ex_adj_two 0 0 1 \<noteq> 1"
    by (simp_all add: at3_def ex_adj_two_def)
  have g: "at3 ex_adj_single 0 0 0 = 2" "at3 ex_adj_single 0 0 0 \<noteq> 0" "at3 ex_adj_single 0 0 0 \<noteq> 1"
    by (simp_all add: at3_def ex_adj_single_def)
  have n: "length (nonzero ex_adj_two) = 3" "num_heads ex_layer = 2"
    "length (nonzero ex_adj_single) = 1" "num_heads ex_layer1 = 1"
    by (simp_all add: ex_two_nonzero ex_single_nonzero ex_layer_def ex_layer1_def)
  from nonbinary_adjacency[OF ex_two_valid h(1) h(2) h(3) h(4) h(5), of True]
  have a: "matrix_of ex_layer ex_feats ex_adj_two = Inl TensorError \<and>
           forward ex_layer ex_feats ex_adj_two True = ([], Inl TensorError)"
    using n(1,2) by (elim exE conjE) simp
  from nonbinary_adjacency[OF ex_single_valid h(1) h(2) h(2) g(2) g(3), of True]
  have b: "\<exists>am. matrix_of ex_layer1 ex_feats ex_adj_single = Inr am \<and> at4 am 0 0 0 0 = sentinel"
    using n(3,4) by (elim exE conjE) auto
  show ?thesis using a b ex_two_valid ex_single_valid ex_two_entry g(1) by (intro conjI) simp_all
qed

subsection \<open>forward leaves the caller's storages alone\<close>

lemma deref_append: "addr r < length s \<Longrightarrow> deref (s @ t) r = deref s r"
  by (simp add: deref_def nth_append)

lemma layer_at_append:
  "addr (projection_ref LR) < length s \<Longrightarrow> addr (a_ref LR) < length s \<Longrightarrow>
     layer_at (s @ t) LR = layer_at s LR"
  by (simp add: layer_at_def deref_append)

lemma view4_elems: "view4 t B N H = Inr v \<Longrightarrow> elems v = elems t"
  by (auto simp: view4_def split: if_splits)

lemma reshape3_elems: "reshape3 t B N = Inr v \<Longrightarrow> elems v = elems t"
  by (auto simp: reshape3_def split: if_splits)

lemma view4_shape_only: "shape t = shape t' \<Longrightarrow> view4 t B N H = Inr v \<Longrightarrow> view4 t' B N H = Inr (v\<lparr>elems := elems t'\<rparr>)"
  by (auto simp: view4_def split: if_splits)

lemma st_project_sound:
  assumes "st_project LR xr s = (r, s')"
  shows "(\<exists>t. s' = s @ t) \<and>
         (case r of
            Inl e \<Rightarrow> project (layer_at s LR) (deref s xr) = Inl e
          | Inr nfr \<Rightarrow> project (layer_at s LR) (deref s xr) = Inr (deref s' nfr) \<and>
                        addr nfr < length s')"
proof (cases "tshape xr")
  case Nil
  then show ?thesis using assms by (auto simp: st_project_def project_def deref_def)
next
  case (Cons B rest)
  note c1 = Cons
  show ?thesis
  proof (cases rest)
    case Nil
    then show ?thesis using assms c1 by (auto simp: st_project_def project_def deref_def)
  next
    case (Cons N rest')
    have sh: "shape (deref s xr) = B # N # rest'" "tshape xr = B # N # rest'"
      using c1 Cons by (simp_all add: deref_def)
    have W: "\<And>s0. projection (layer_at s0 LR) = deref s0 (projection_ref LR)"
      "\<And>s0. num_heads (layer_at s0 LR) = heads LR" by (simp_all add: layer_at_def)
    show ?thesis
    proof (cases "linear (deref s (projection_ref LR)) (deref s xr)")
      case (Inl e)
      then show ?thesis using assms sh by (auto simp: st_project_def project_def W bindE_def)
    next
      case (Inr y)
      have dy: "deref (s @ [elems y]) \<lparr>addr = length s, tshape = shape y\<rparr> = y"
        by (simp add: deref_def)
      show ?thesis
      proof (cases "view4 y B N (heads LR)")
        case (Inl e)
        then show ?thesis using assms sh Inr dy
          by (auto simp: st_project_def project_def W bindE_def alloc_def)
      next
        case v: (Inr v)
        have "elems v = elems y" using v by (rule view4_elems)
        then have "deref (s @ [elems y]) \<lparr>addr = length s, tshape = shape v\<rparr> = v"
          by (simp add: deref_def)
        then show ?thesis using assms sh Inr dy v
          by (auto simp: st_project_def project_def W bindE_def alloc_def)
      qed
    qed
  qed
qed

lemma store_two_update: "(s @ [u, v])[Suc (length s) := w] = s @ [u, w]"
  by (simp add: list_update_append)

lemma store_two_nth: "(s @ [u, v]) ! length s = u" "(s @ [u, v]) ! Suc (length s) = v"
  by (simp_all add: nth_append)

lemma overwrite_second:
  "overwrite \<lparr>addr = Suc (length s), tshape = sh\<rparr> w (s @ [u, v]) = s @ [u, w]"
  by (simp add: overwrite_def store_two_update)

lemma deref_append_two:
  "deref (s @ [u, v]) \<lparr>addr = length s, tshape = sh\<rparr> = \<lparr>shape = sh, elems = u\<rparr>"
  "deref (s @ [u, v]) \<lparr>addr = Suc (length s), tshape = sh\<rparr> = \<lparr>shape = sh, elems = v\<rparr>"
  by (simp_all add: deref_def nth_append)

lemma tensor_eta: "\<lparr>shape = shape t, elems = elems t\<rparr> = (t::tensor)"
  by simp

lemma st_attention_sound:
  assumes "addr nfr < length s" and "addr ar < length s"
    and "st_attention LR nfr ar s = (r, s')"
  shows "(\<exists>t. s' = s @ t) \<and>
         (case r of
            Inl e \<Rightarrow> attention (layer_at s LR) (deref s nfr) (deref s ar) = Inl e
          | Inr rpr \<Rightarrow> attention (layer_at s LR) (deref s nfr) (deref s ar) = Inr (deref s' rpr) \<and>
                        addr rpr < length s')"
proof (cases "length (tshape ar) \<noteq> 3")
  case True
  then show ?thesis using assms(3) by (auto simp: st_attention_def attention_def deref_def)
next
  case False
  let ?L = "layer_at s LR"
  let ?adj = "deref s ar"
  let ?H = "heads LR"
  let ?n = "prod_list (tshape ar @ [?H])"
  have d3: "length (shape ?adj) = 3" "shape ?adj = tshape ar" using False by (simp_all add: deref_def)
  have H: "num_heads ?L = ?H" by (simp add: layer_at_def)
  show ?thesis
  proof (cases "attn_logits ?L (deref s nfr) ?adj")
    case (Inl e)
    then show ?thesis using assms(3) False d3
      by (auto simp: st_attention_def attention_def bindE_def)
  next
    case lg: (Inr lg)
    let ?s3 = "s @ [elems lg, replicate ?n sentinel]"
    let ?rlg = "\<lparr>addr = length s, tshape = shape lg\<rparr>"
    let ?ram = "\<lparr>addr = Suc (length s), tshape = tshape ar @ [?H]\<rparr>"
    have ar: "\<And>t. deref (s @ t) ar = ?adj" using assms(2) by (simp add: deref_append)
    have am: "attn_matrix ?L ?adj lg =
        bindE (index_put_mask (adj_mask ?adj ?H) (replicate ?n sentinel) (elems lg))
          (\<lambda>vs. Inr \<lparr>shape = tshape ar @ [?H], elems = vs\<rparr>)"
      by (simp add: attn_matrix_def H d3(2))
    have step: "st_attention LR nfr ar s =
        (case index_put_mask (adj_mask ?adj ?H) (replicate ?n sentinel) (elems lg) of
           Inl e \<Rightarrow> (Inl e, ?s3)
         | Inr vs \<Rightarrow>
             (Inr \<lparr>addr = Suc (Suc (length s)),
                   tshape = shape (softmax_dim2 \<lparr>shape = tshape ar @ [?H], elems = vs\<rparr>)\<rparr>,
              s @ [elems lg, vs,
                   elems (softmax_dim2 \<lparr>shape = tshape ar @ [?H], elems = vs\<rparr>)]))"
      using False lg
      by (simp add: st_attention_def alloc_def Let_def overwrite_second deref_append_two ar
          split: sum.splits)
    show ?thesis
    proof (cases "index_put_mask (adj_mask ?adj ?H) (replicate ?n sentinel) (elems lg)")
      case (Inl e)
      have "attention ?L (deref s nfr) ?adj = Inl e"
        using d3 lg am Inl by (simp add: attention_def bindE_def)
      moreover have "r = Inl e" "s' = ?s3" using assms(3) step Inl by simp_all
      ultimately show ?thesis by simp
    next
      case (Inr vs)
      let ?am = "\<lparr>shape = tshape ar @ [?H], elems = vs\<rparr>"
      let ?rpr = "\<lparr>addr = Suc (Suc (length s)), tshape = shape (softmax_dim2 ?am)\<rparr>"
      have res: "r = Inr ?rpr" "s' = s @ [elems lg, vs, elems (softmax_dim2 ?am)]"
        using assms(3) step Inr by simp_all
      have att: "attention ?L (deref s nfr) ?adj = Inr (softmax_dim2 ?am)"
        using d3 lg am Inr by (simp add: attention_def bindE_def)
      have dr: "deref s' ?rpr = softmax_dim2 ?am"
        unfolding res(2) by (simp add: deref_def nth_append)
      have "\<exists>t. s' = s @ t" unfolding res(2) by simp
      moreover have "addr ?rpr < length s'" unfolding res(2) by simp
      ultimately show ?thesis using att dr by (simp add: res(1))
    qed
  qed
qed

lemma st_output_sound:
  assumes "addr nfr < length s" and "addr rpr < length s"
    and "st_output LR nfr rpr s = (r, s')"
  shows "(\<exists>t. s' = s @ t) \<and>
         (case r of
            Inl e \<Rightarrow> bindE (aggregate (deref s rpr) (deref s nfr)) (\<lambda>out.
                       if concat_flag LR then reshape3 out (tshape nfr ! 0) (tshape nfr ! 1)
                       else Inr (mean_dim2 out)) = Inl e
          | Inr ro \<Rightarrow> bindE (aggregate (deref s rpr) (deref s nfr)) (\<lambda>out.
                       if concat_flag LR then reshape3 out (tshape nfr ! 0) (tshape nfr ! 1)
                       else Inr (mean_dim2 out)) = Inr (deref s' ro))"
proof (cases "aggregate (deref s rpr) (deref s nfr)")
  case (Inl e)
  then show ?thesis using assms(3) by (auto simp: st_output_def bindE_def)
next
  case ag: (Inr ag)
  let ?rag = "\<lparr>addr = length s, tshape = shape ag\<rparr>"
  have dag: "deref (s @ [elems ag]) ?rag = ag" by (simp add: deref_def)
  show ?thesis
  proof (cases "concat_flag LR")
    case True
    show ?thesis
    proof (cases "reshape3 ag (tshape nfr ! 0) (tshape nfr ! 1)")
      case (Inl e)
      then show ?thesis using assms(3) ag True dag
        by (auto simp: st_output_def bindE_def alloc_def)
    next
      case (Inr v)
      have "elems v = elems ag" using Inr by (rule reshape3_elems)
      then have "deref (s @ [elems ag]) \<lparr>addr = length s, tshape = shape v\<rparr> = v"
        by (simp add: deref_def)
      then show ?thesis using assms(3) ag True dag Inr
        by (auto simp: st_output_def bindE_def alloc_def)
    qed
  next
    case False
    have "deref (s @ [elems ag] @ [elems (mean_dim2 ag)])
            \<lparr>addr = Suc (length s), tshape = shape (mean_dim2 ag)\<rparr> = mean_dim2 ag"
      by (simp add: deref_def nth_append)
    then show ?thesis using assms(3) ag False dag
      by (auto simp: st_output_def bindE_def alloc_def)
  qed
qed

lemma forward_st_sound:
  assumes "refs_in s LR xr ar" and "forward_st LR xr ar dbg s = ((printed, res), s')"
  shows "(\<exists>t. s' = s @ t) \<and>
         printed = fst (forward (layer_at s LR) (deref s xr) (deref s ar) dbg) \<and>
         (case res of
            Inl e \<Rightarrow> snd (forward (layer_at s LR) (deref s xr) (deref s ar) dbg) = Inl e
          | Inr ro \<Rightarrow> snd (forward (layer_at s LR) (deref s xr) (deref s ar) dbg) = Inr (deref s' ro))"
proof -
  let ?L = "layer_at s LR"
  let ?x = "deref s xr"
  let ?adj = "deref s ar"
  have rng: "addr xr < length s" "addr ar < length s" "addr (projection_ref LR) < length s"
    "addr (a_ref LR) < length s"
    using assms(1) by (simp_all add: refs_in_def)
  obtain r1 s1 where p: "st_project LR xr s = (r1, s1)" by (cases "st_project LR xr s")
  from st_project_sound[OF p] obtain t1 where
    s1: "s1 = s @ t1" and
    r1: "case r1 of Inl e \<Rightarrow> project ?L ?x = Inl e
         | Inr nfr \<Rightarrow> project ?L ?x = Inr (deref s1 nfr) \<and> addr nfr < length s1"
    by blast
  show ?thesis
  proof (cases r1)
    case (Inl e)
    then have "project ?L ?x = Inl e" using r1 by simp
    moreover have "printed = []" "res = Inl e" "s' = s1"
      using assms(2) p Inl by (simp_all add: forward_st_def)
    ultimately show ?thesis using s1 by (simp add: forward_def)
  next
    case nfr: (Inr nfr)
    let ?nf = "deref s1 nfr"
    have pj: "project ?L ?x = Inr ?nf" and n1: "addr nfr < length s1" using r1 nfr by simp_all
    have a1: "addr ar < length s1" using rng(2) s1 by simp
    have L1: "layer_at s1 LR = ?L" unfolding s1 using rng(3,4) by (rule layer_at_append)
    have adj1: "deref s1 ar = ?adj" unfolding s1 using rng(2) by (rule deref_append)
    obtain r2 s2 where a: "st_attention LR nfr ar s1 = (r2, s2)"
      by (cases "st_attention LR nfr ar s1")
    from st_attention_sound[OF n1 a1 a] obtain t2 where
      s2: "s2 = s1 @ t2" and
      r2: "case r2 of Inl e \<Rightarrow> attention ?L ?nf ?adj = Inl e
           | Inr rpr \<Rightarrow> attention ?L ?nf ?adj = Inr (deref s2 rpr) \<and> addr rpr < length s2"
      unfolding L1 adj1 by blast
    show ?thesis
    proof (cases r2)
      case (Inl e)
      then have "attention ?L ?nf ?adj = Inl e" using r2 by simp
      moreover have "printed = []" "res = Inl e" "s' = s2"
        using assms(2) p nfr a Inl by (simp_all add: forward_st_def)
      ultimately show ?thesis using s1 s2 pj by (simp add: forward_def)
    next
      case rpr: (Inr rpr)
      let ?pr = "deref s2 rpr"
      have at: "attention ?L ?nf ?adj = Inr ?pr" and n2: "addr rpr < length s2"
        using r2 rpr by simp_all
      have nf2: "deref s2 nfr = ?nf" "addr nfr < length s2"
        unfolding s2 using n1 by (simp_all add: deref_append)
      obtain r3 s3 where o: "st_output LR nfr rpr s2 = (r3, s3)"
        by (cases "st_output LR nfr rpr s2")
      let ?comb = "bindE (aggregate ?pr ?nf) (\<lambda>out.
                       if concat_flag LR then reshape3 out (tshape nfr ! 0) (tshape nfr ! 1)
                       else Inr (mean_dim2 out))"
      from st_output_sound[OF nf2(2) n2 o] obtain t3 where
        s3: "s3 = s2 @ t3" and
        r3: "case r3 of Inl e \<Rightarrow> ?comb = Inl e | Inr ro \<Rightarrow> ?comb = Inr (deref s3 ro)"
        unfolding nf2(1) by blast
      have out: "printed = (if dbg then [permute_0312 ?pr] else [])" "res = r3" "s' = s3"
        using assms(2) p nfr a rpr o by (simp_all add: forward_st_def)
      have ch: "concat_heads ?L = concat_flag LR" by (simp add: layer_at_def)
      have shnf: "shape ?nf = tshape nfr" by (simp add: deref_def)
      have fw: "forward ?L ?x ?adj dbg = (if dbg then [permute_0312 ?pr] else [], ?comb)"
        by (simp add: forward_def pj at ch shnf cong: if_cong)
      have "\<exists>t. s' = s @ t" using out(3) s1 s2 s3 by simp
      then show ?thesis using fw out r3 by (simp add: out(3) split: sum.splits)
    qed
  qed
qed

text \<open>
  C9. A call of \<^verbatim>\<open>forward\<close> on a store that holds its two inputs and the layer's two
  parameters only appends storages: every storage that existed before the call is unchanged
  after it, so the node features, the adjacency, the projection weight and \<^verbatim>\<open>a\<close> read the
  same before and after. What the call prints and returns (or the failure it raises) is what
  the function \<^const>\<open>forward\<close> computes from the values of the inputs and of the parameters
  before the call, and from nothing else.
\<close>

theorem forward_frame:
  assumes "refs_in s LR xr ar" and "forward_st LR xr ar dbg s = ((printed, res), s')"
  shows "length s \<le> length s' \<and> (\<forall>p<length s. s' ! p = s ! p) \<and>
         deref s' xr = deref s xr \<and> deref s' ar = deref s ar \<and>
         layer_at s' LR = layer_at s LR \<and>
         (printed, map_sum id (deref s') res) =
           forward (layer_at s LR) (deref s xr) (deref s ar) dbg"
proof -
  have rng: "addr xr < length s" "addr ar < length s" "addr (projection_ref LR) < length s"
    "addr (a_ref LR) < length s"
    using assms(1) by (simp_all add: refs_in_def)
  from forward_st_sound[OF assms] obtain t where
    t: "s' = s @ t" and
    pr: "printed = fst (forward (layer_at s LR) (deref s xr) (deref s ar) dbg)" and
    rs: "case res of
            Inl e \<Rightarrow> snd (forward (layer_at s LR) (deref s xr) (deref s ar) dbg) = Inl e
          | Inr ro \<Rightarrow> snd (forward (layer_at s LR) (deref s xr) (deref s ar) dbg) = Inr (deref s' ro)"
    by blast
  have "map_sum id (deref s') res = snd (forward (layer_at s LR) (deref s xr) (deref s ar) dbg)"
    using rs by (cases res) simp_all
  then have v: "(printed, map_sum id (deref s') res) =
           forward (layer_at s LR) (deref s xr) (deref s ar) dbg"
    using pr by simp
  have "length s \<le> length s'" "\<forall>p<length s. s' ! p = s ! p"
    unfolding t by (simp_all add: nth_append)
  moreover have "deref s' xr = deref s xr" "deref s' ar = deref s ar"
    unfolding t using rng by (simp_all add: deref_append)
  moreover have "layer_at s' LR = layer_at s LR"
    unfolding t using rng(3,4) by (rule layer_at_append)
  ultimately show ?thesis using v by simp
qed

lemma ex_refs_in: "refs_in ex_store ex_layer_ref ex_feats_ref ex_adj_ref"
  by (simp add: refs_in_def ex_store_def ex_layer_ref_def ex_feats_ref_def ex_adj_ref_def)

lemma ex_store_reads:
  "layer_at ex_store ex_layer_ref = ex_layer" "deref ex_store ex_feats_ref = ex_feats"
  "deref ex_store ex_adj_ref = ex_adj"
  by (simp_all add: layer_at_def deref_def ex_store_def ex_layer_ref_def ex_feats_ref_def
      ex_adj_ref_def ex_layer_def ex_feats_def ex_adj_def)

theorem forward_frame_witness:
  "refs_in ex_store ex_layer_ref ex_feats_ref ex_adj_ref \<and>
   (case forward_st ex_layer_ref ex_feats_ref ex_adj_ref True ex_store of
      ((printed, res), s') \<Rightarrow>
        take 4 s' = ex_store \<and> deref s' ex_feats_ref = ex_feats \<and> deref s' ex_adj_ref = ex_adj \<and>
        layer_at s' ex_layer_ref = ex_layer \<and>
        (printed, map_sum id (deref s') res) = forward ex_layer ex_feats ex_adj True)"
proof -
  obtain printed res s' where
    f: "forward_st ex_layer_ref ex_feats_ref ex_adj_ref True ex_store = ((printed, res), s')"
    by (metis surj_pair)
  note w = forward_frame[OF ex_refs_in f]
  have len: "length ex_store = 4" by (simp add: ex_store_def)
  have "take 4 s' = ex_store"
    using w len by (intro nth_equalityI) simp_all
  then show ?thesis using w ex_refs_in by (simp add: f ex_store_reads)
qed

text \<open>On the example, line 32 appends the projected features as a fifth storage.\<close>

lemma ex_project_st:
  "st_project ex_layer_ref ex_feats_ref ex_store =
     (Inr \<lparr>addr = 4, tshape = [1, 2, 2, 1]\<rparr>, ex_store @ [[3, 6, 5, 10]])"
  by (simp add: st_project_def ex_layer_ref_def ex_feats_ref_def ex_store_def deref_def linear_def
      alloc_def view4_def upt_conv_Cons)

end
